theory Spec2Isabelle
  imports Main "HOL-Library.Sublist"
begin

section \<open>The world the backup agent runs in\<close>

text \<open>
  The repository holds two revisions of the one program: \<^verbatim>\<open>src/main.go\<close> (archiving
  with \<^verbatim>\<open>zip\<close>) and \<^verbatim>\<open>src/unnamed/part_000\<close> (archiving with \<^verbatim>\<open>rsync\<close>).
  Definitions without a suffix embed \<^verbatim>\<open>main.go\<close>; those ending in \<open>_p0\<close> embed
  \<^verbatim>\<open>part_000\<close>. Functions that are the same text in both are embedded once.

  The program is a sequence of effects on the file system, the log and external
  processes. A \<open>world\<close> is the state those effects act on; an \<open>env\<close> holds what the
  program cannot decide: the clock, the search path, and whether a system call or
  an external process succeeds.
\<close>

type_synonym path = string

datatype node = Dir | File string

text \<open>The effectful calls, in the order the program issues them.\<close>

datatype call =
    Mkdir path
  | OpenFile path
  | Exec "string list"
  | RemoveAll path

text \<open>
  What reaches the log writer (standard output and the log file at once): a line
  printed by the program, the line that announces a command with the given argument
  vector (\<^verbatim>\<open>running command : '...'\<close>, its text being what \<^verbatim>\<open>exec.Cmd.String\<close> prints
  for the command), the output of an external process whose \<^verbatim>\<open>Stdout\<close> is the log
  writer, or the line of a \<^verbatim>\<open>log.Fatal\<close>.
\<close>

datatype fatal =
    ErrLogFile | ErrRequirements | ErrDataDir | ErrBackupDir | ErrArchiveDir
  | ErrCycleDir | ErrSqlDump | ErrRsync | ErrArchiving | ErrMove | ErrRemove
  | PanicIndex

datatype log_entry = Printf string | Running "string list" | CmdOut string | FatalLine fatal

record world =
  fs :: "path \<Rightarrow> node option"
  logged :: "log_entry list"
  calls :: "call list"

record timestamp =
  year :: nat
  month :: nat
  day :: nat
  hour :: nat
  minute :: nat
  second :: nat

record env =
  now :: timestamp
  look_path :: "string \<Rightarrow> bool"
  stat_fails :: "path \<Rightarrow> bool"
  mkdir_ok :: "path \<Rightarrow> bool"
  open_ok :: "path \<Rightarrow> bool"
  proc :: "string list \<Rightarrow> bool \<times> string"
  remove_ok :: "path \<Rightarrow> bool"

text \<open>
  \<open>stat_fails e p\<close> says that \<^verbatim>\<open>os.Stat\<close> on \<open>p\<close> fails for a reason other than the
  absence of \<open>p\<close> (no permission to search a directory above it, a file where a
  directory should be), whether \<open>p\<close> is there or not.
  \<open>proc e argv\<close> is what the external process started with \<open>argv\<close> does: whether it
  could be started and exited with status 0, and what it wrote to its standard
  output. What the tools write below their own destination arguments is their
  business; \<open>fs\<close> follows the entries the program itself creates and removes.
\<close>

text \<open>The outcome of a piece of \<^verbatim>\<open>main\<close>: the process has exited, or it goes on.\<close>

datatype 'a outcome =
    is_Fatal: Fatal (reason: fatal) (world_of: world)
  | is_Done: Done (result: 'a) (world_of: world)

section \<open>Configuration and tracker\<close>

record db =
  Name :: string
  User :: string
  Password :: string

record config =
  DB :: db
  LogPath :: string
  DataPath :: string
  BackupPath :: string
  ArchivePath :: string
  DayInterval :: int
  Threshhold :: int

text \<open>
  The two loop variables of \<^verbatim>\<open>main\<close>: \<^verbatim>\<open>count\<close> and \<^verbatim>\<open>backupStamps\<close>. Go's \<^verbatim>\<open>int\<close>
  is modelled by \<open>int\<close>: with a threshold of at least 1 the counter stays between 0
  and the threshold, far from where a 64-bit integer wraps.
\<close>

record tracker =
  count :: int
  backupStamps :: "path list"

definition empty_tracker :: tracker where
  "empty_tracker = \<lparr>count = 0, backupStamps = []\<rparr>"

text \<open>The length of the Retention Tracker.\<close>

definition tracked :: "tracker \<Rightarrow> int" where
  "tracked t = int (length (backupStamps t))"

section \<open>Library functions of Go the program calls\<close>

text \<open>
  \<^verbatim>\<open>time.Format("2006-01-02")\<close>: year, month and day in decimal, zero-padded to four,
  two and two digits. The time of day is not read.
\<close>

definition digit :: "nat \<Rightarrow> char" where
  "digit n = ''0123456789'' ! (n mod 10)"

fun decimal :: "nat \<Rightarrow> string" where
  "decimal n = (if n < 10 then [digit n] else decimal (n div 10) @ [digit n])"

declare decimal.simps [simp del]

definition zero_pad :: "nat \<Rightarrow> string \<Rightarrow> string" where
  "zero_pad k s = replicate (k - length s) CHR ''0'' @ s"

definition Format :: "timestamp \<Rightarrow> string" where
  "Format t =
     zero_pad 4 (decimal (year t)) @ ''-'' @ zero_pad 2 (decimal (month t)) @ ''-'' @
     zero_pad 2 (decimal (day t))"

text \<open>
  \<^verbatim>\<open>filepath.Clean\<close> on a system whose separator is the slash: the path is cut at
  its separators; empty elements and \<^verbatim>\<open>.\<close> are dropped; \<^verbatim>\<open>..\<close> takes away the
  element before it, is dropped at the root, and stays at the front of a path that
  is not rooted; what remains is joined by single separators behind the root, and
  the empty result is \<^verbatim>\<open>.\<close>.
\<close>

fun split_path :: "string \<Rightarrow> string list" where
  "split_path [] = [[]]"
| "split_path (c # cs) =
     (if c = CHR ''/'' then [] # split_path cs
      else (case split_path cs of
              [] \<Rightarrow> [[c]]
            | x # xs \<Rightarrow> (c # x) # xs))"

fun join_path :: "string list \<Rightarrow> string" where
  "join_path [] = []"
| "join_path [x] = x"
| "join_path (x # y # ys) = x @ ''/'' @ join_path (y # ys)"

text \<open>One element of the path meets the elements kept so far, the last one first.\<close>

definition clean_step :: "bool \<Rightarrow> string list \<Rightarrow> string \<Rightarrow> string list" where
  "clean_step rooted kept x =
     (if x = [] \<or> x = ''.'' then kept
      else if x = ''..'' then
        (case kept of
           [] \<Rightarrow> (if rooted then [] else [''..''])
         | k # ks \<Rightarrow> (if k = ''..'' then ''..'' # kept else ks))
      else x # kept)"

definition Clean :: "path \<Rightarrow> path" where
  "Clean p =
     (if p = [] then ''.''
      else (let rooted = (hd p = CHR ''/'');
                kept = rev (foldl (clean_step rooted) [] (split_path p));
                out = (if rooted then ''/'' @ join_path kept else join_path kept)
            in if out = [] then ''.'' else out))"

text \<open>
  \<^verbatim>\<open>filepath.Join\<close> on two elements: from the first element that is not empty on,
  the elements are joined by the separator and the result is cleaned; with no such
  element the result is empty.
\<close>

definition Join :: "path \<Rightarrow> string \<Rightarrow> path" where
  "Join a b =
     (if a \<noteq> [] then Clean (a @ ''/'' @ b)
      else if b \<noteq> [] then Clean b
      else [])"

text \<open>
  Indexing and slicing a Go slice panic out of range; \<open>None\<close> is the panic.
  (\<^verbatim>\<open>s[:j]\<close> is allowed up to the capacity; the program only slices within the
  length.)
\<close>

definition index :: "'a list \<Rightarrow> int \<Rightarrow> 'a option" where
  "index xs i = (if 0 \<le> i \<and> i < int (length xs) then Some (xs ! nat i) else None)"

definition slice_to :: "'a list \<Rightarrow> int \<Rightarrow> 'a list option" where
  "slice_to xs j = (if 0 \<le> j \<and> j \<le> int (length xs) then Some (take (nat j) xs) else None)"

text \<open>\<^verbatim>\<open>log.Printf\<close> and \<^verbatim>\<open>log.Fatalf\<close> (which exits after writing).\<close>

definition logf :: "string \<Rightarrow> world \<Rightarrow> world" where
  "logf s w = w\<lparr>logged := logged w @ [Printf s]\<rparr>"

definition Fatalf :: "fatal \<Rightarrow> world \<Rightarrow> 'a outcome" where
  "Fatalf x w = Fatal x (w\<lparr>logged := logged w @ [FatalLine x]\<rparr>)"

text \<open>A runtime panic exits without a log line.\<close>

definition panic :: "world \<Rightarrow> 'a outcome" where
  "panic w = Fatal PanicIndex w"

text \<open>
  \<^verbatim>\<open>os.Stat\<close> and \<^verbatim>\<open>os.IsNotExist\<close> on its error: the call succeeds, fails because
  the path does not exist, or fails for another reason.
\<close>

datatype stat = StatOk node | ErrNotExist | ErrOther

definition os_Stat :: "env \<Rightarrow> world \<Rightarrow> path \<Rightarrow> stat" where
  "os_Stat e w p =
     (if stat_fails e p then ErrOther
      else (case fs w p of None \<Rightarrow> ErrNotExist | Some n \<Rightarrow> StatOk n))"

definition IsNotExist :: "stat \<Rightarrow> bool" where
  "IsNotExist r = (case r of ErrNotExist \<Rightarrow> True | StatOk n \<Rightarrow> False | ErrOther \<Rightarrow> False)"

text \<open>
  \<^verbatim>\<open>os.Mkdir\<close>, \<^verbatim>\<open>os.OpenFile\<close> with \<^verbatim>\<open>O_CREATE\<close> and without \<^verbatim>\<open>O_TRUNC\<close>, and
  \<^verbatim>\<open>os.RemoveAll\<close>, which removes the path and everything below it. The result is
  \<open>True\<close> when the Go error is \<^verbatim>\<open>nil\<close>; a call that fails leaves the file system as
  it was. Permission bits are not part of \<open>fs\<close>: what the mode given to \<^verbatim>\<open>os.Mkdir\<close>
  (0644 in \<^verbatim>\<open>main.go\<close>, 0777 in \<^verbatim>\<open>part_000\<close>) does to later calls below the
  directory is in the environment, which decides whether each of them fails.
\<close>

definition os_Mkdir :: "env \<Rightarrow> path \<Rightarrow> world \<Rightarrow> bool \<times> world" where
  "os_Mkdir e d w =
     (if mkdir_ok e d
      then (True, w\<lparr>fs := (fs w)(d \<mapsto> Dir), calls := calls w @ [Mkdir d]\<rparr>)
      else (False, w\<lparr>calls := calls w @ [Mkdir d]\<rparr>))"

definition os_OpenFile :: "env \<Rightarrow> path \<Rightarrow> world \<Rightarrow> bool \<times> world" where
  "os_OpenFile e p w =
     (if open_ok e p
      then (True, w\<lparr>fs := (case fs w p of None \<Rightarrow> (fs w)(p \<mapsto> File []) | Some n \<Rightarrow> fs w),
                    calls := calls w @ [OpenFile p]\<rparr>)
      else (False, w\<lparr>calls := calls w @ [OpenFile p]\<rparr>))"

definition remove_tree :: "(path \<Rightarrow> node option) \<Rightarrow> path \<Rightarrow> (path \<Rightarrow> node option)" where
  "remove_tree f d = (\<lambda>q. if q = d \<or> prefix (d @ ''/'') q then None else f q)"

definition os_RemoveAll :: "env \<Rightarrow> path \<Rightarrow> world \<Rightarrow> bool \<times> world" where
  "os_RemoveAll e d w =
     (if remove_ok e d
      then (True, w\<lparr>fs := remove_tree (fs w) d, calls := calls w @ [RemoveAll d]\<rparr>)
      else (False, w\<lparr>calls := calls w @ [RemoveAll d]\<rparr>))"

text \<open>
  \<^verbatim>\<open>exec.Cmd\<close>: the argument vector and where standard output goes. A command
  whose \<^verbatim>\<open>Stdout\<close> is left \<^verbatim>\<open>nil\<close> has its output discarded.
\<close>

datatype sink = Discard | ToLog | ToFile path

record cmd =
  Args :: "string list"
  Stdout :: sink

definition Command :: "string \<Rightarrow> string list \<Rightarrow> cmd" where
  "Command name arg = \<lparr>Args = name # arg, Stdout = Discard\<rparr>"

text \<open>
  Writing \<open>out\<close> through a descriptor opened without \<^verbatim>\<open>O_TRUNC\<close> and without
  \<^verbatim>\<open>O_APPEND\<close>: the bytes replace the file's from offset 0, what lay beyond stays.
\<close>

definition write_file :: "path \<Rightarrow> string \<Rightarrow> world \<Rightarrow> world" where
  "write_file p out w =
     (case fs w p of
        Some (File old) \<Rightarrow> w\<lparr>fs := (fs w)(p \<mapsto> File (out @ drop (length out) old))\<rparr>
      | _ \<Rightarrow> w)"

definition Run :: "env \<Rightarrow> cmd \<Rightarrow> world \<Rightarrow> bool \<times> world" where
  "Run e c w =
     (let r = proc e (Args c);
          w1 = w\<lparr>calls := calls w @ [Exec (Args c)]\<rparr>
      in (fst r,
          case Stdout c of
            Discard \<Rightarrow> w1
          | ToLog \<Rightarrow> w1\<lparr>logged := logged w1 @ [CmdOut (snd r)]\<rparr>
          | ToFile p \<Rightarrow> write_file p (snd r) w1))"

section \<open>The functions of the program\<close>

text \<open>
  \<^verbatim>\<open>directoryExists\<close>: false exactly when the error of \<^verbatim>\<open>os.Stat\<close> says that the path
  does not exist; true when \<^verbatim>\<open>os.Stat\<close> succeeds and when it fails for any other
  reason.
\<close>

definition directoryExists :: "env \<Rightarrow> world \<Rightarrow> path \<Rightarrow> bool" where
  "directoryExists e w directory =
     (if IsNotExist (os_Stat e w directory) then False else True)"

text \<open>\<^verbatim>\<open>ensureDir\<close> of \<^verbatim>\<open>main.go\<close>.\<close>

definition ensureDir :: "env \<Rightarrow> path \<Rightarrow> world \<Rightarrow> bool \<times> world" where
  "ensureDir e directory w =
     (if \<not> directoryExists e w directory
      then (case os_Mkdir e directory w of
              (False, w1) \<Rightarrow> (False, w1)
            | (True, w1) \<Rightarrow> (True, w1))
      else (True, w))"

text \<open>\<^verbatim>\<open>ensureDir\<close> of \<^verbatim>\<open>part_000\<close>: the same, and a log line on every success.\<close>

definition ensureDir_p0 :: "env \<Rightarrow> path \<Rightarrow> world \<Rightarrow> bool \<times> world" where
  "ensureDir_p0 e directory w =
     (if \<not> directoryExists e w directory
      then (case os_Mkdir e directory w of
              (False, w1) \<Rightarrow> (False, w1)
            | (True, w1) \<Rightarrow> (True, logf (''created directory: '' @ directory) w1))
      else (True, logf (''created directory: '' @ directory) w))"

text \<open>\<^verbatim>\<open>checkRequirements\<close>: \<open>True\<close> when every tool is on the search path.\<close>

definition checkRequirements :: "env \<Rightarrow> bool" where
  "checkRequirements e =
     (if \<not> look_path e ''mysqldump'' then False
      else if \<not> look_path e ''zip'' then False
      else look_path e ''rsync'')"

definition checkRequirements_p0 :: "env \<Rightarrow> bool" where
  "checkRequirements_p0 e =
     (if \<not> look_path e ''mysqldump'' then False
      else look_path e ''rsync'')"

text \<open>\<^verbatim>\<open>setCmdOut\<close> (the standard error stream is not modelled).\<close>

definition setCmdOut :: "cmd \<Rightarrow> cmd" where
  "setCmdOut c = c\<lparr>Stdout := ToLog\<rparr>"

definition running :: "cmd \<Rightarrow> world \<Rightarrow> world" where
  "running c w = w\<lparr>logged := logged w @ [Running (Args c)]\<rparr>"

text \<open>\<^verbatim>\<open>rsyncData\<close>, the same in both revisions.\<close>

definition rsyncData :: "env \<Rightarrow> path \<Rightarrow> path \<Rightarrow> world \<Rightarrow> bool \<times> world" where
  "rsyncData e src dst w =
     (let c = setCmdOut (Command ''rsync'' [''-a'', src, dst])
      in Run e c (running c w))"

text \<open>
  \<^verbatim>\<open>mysqldump\<close> of \<^verbatim>\<open>main.go\<close>: no shell is involved, so \<^verbatim>\<open>">"\<close> and \<^verbatim>\<open>dst\<close> are two
  more arguments of the tool; the parameter \<^verbatim>\<open>db\<close> is not used.
\<close>

definition mysqldump :: "env \<Rightarrow> string \<Rightarrow> string \<Rightarrow> string \<Rightarrow> path \<Rightarrow> world \<Rightarrow> bool \<times> world" where
  "mysqldump e user pw db dst w =
     (let c = setCmdOut (Command ''mysqldump'' [''-u'', user, ''-p'' @ pw, ''>'', dst])
      in Run e c (running c w))"

text \<open>\<^verbatim>\<open>mysqldump\<close> of \<^verbatim>\<open>part_000\<close>: the dump file is opened and made the standard output.\<close>

definition mysqldump_p0 :: "env \<Rightarrow> string \<Rightarrow> string \<Rightarrow> string \<Rightarrow> path \<Rightarrow> world \<Rightarrow> bool \<times> world" where
  "mysqldump_p0 e user pw db dst w =
     (let c = Command ''mysqldump'' [''-u'', user, ''-p'' @ pw, db]
      in case os_OpenFile e dst w of
           (False, w1) \<Rightarrow> (False, w1)
         | (True, w1) \<Rightarrow>
             (let c' = c\<lparr>Stdout := ToFile dst\<rparr>
              in Run e c' (running c' w1)))"

section \<open>The body of the loop\<close>

text \<open>
  One iteration of the loop of \<^verbatim>\<open>main\<close> in \<^verbatim>\<open>main.go\<close>, in three parts: producing
  the snapshot and recording it (lines 126 to 151), the rotation (lines 153 to 180),
  and in it the loop that removes directories (lines 171 to 177).
\<close>

definition snapshot :: "config \<Rightarrow> env \<Rightarrow> tracker \<Rightarrow> world \<Rightarrow> tracker outcome" where
  "snapshot cfg e t w =
     (let dir = Format (now e);
          backupPath = Join (BackupPath cfg) dir
      in case ensureDir e backupPath w of
           (False, w1) \<Rightarrow> Fatalf ErrCycleDir w1
         | (True, w1) \<Rightarrow>
             (let dumpFileName = Name (DB cfg) @ ''-'' @ dir @ ''.sql'';
                  dumpFilePath = Join backupPath dumpFileName
              in case mysqldump e (User (DB cfg)) (Password (DB cfg)) (Name (DB cfg))
                        dumpFilePath w1 of
                   (False, w2) \<Rightarrow> Fatalf ErrSqlDump w2
                 | (True, w2) \<Rightarrow>
                     (let dataBackupPath = Join backupPath ''data''
                      in case rsyncData e (DataPath cfg) dataBackupPath w2 of
                           (False, w3) \<Rightarrow> Fatalf ErrRsync w3
                         | (True, w3) \<Rightarrow>
                             Done \<lparr>count = count t + 1,
                                   backupStamps = backupStamps t @ [backupPath]\<rparr> w3)))"

fun remove_loop :: "env \<Rightarrow> path list \<Rightarrow> world \<Rightarrow> unit outcome" where
  "remove_loop e [] w = Done () w"
| "remove_loop e (dir # dirs) w =
     (if directoryExists e w dir
      then (case os_RemoveAll e dir w of
              (False, w1) \<Rightarrow> Fatalf ErrRemove w1
            | (True, w1) \<Rightarrow> remove_loop e dirs w1)
      else remove_loop e dirs w)"

definition rotation :: "config \<Rightarrow> env \<Rightarrow> tracker \<Rightarrow> world \<Rightarrow> tracker outcome" where
  "rotation cfg e t w =
     (if count t = Threshhold cfg then
        (case index (backupStamps t) 0 of
           None \<Rightarrow> panic w
         | Some first' \<Rightarrow>
        (case index (backupStamps t) (int (length (backupStamps t)) - 2) of
           None \<Rightarrow> panic w
         | Some last' \<Rightarrow>
        (let archiveZipName = ''archive_'' @ first' @ ''_'' @ last' @ ''.zip'';
             archivePath = Join (ArchivePath cfg) archiveZipName
         in case slice_to (backupStamps t) (int (length (backupStamps t)) - 2) of
              None \<Rightarrow> panic w
            | Some olds \<Rightarrow>
           (let c = setCmdOut (Command ''zip'' ([''-r'', archivePath] @ olds))
            in case Run e c (running c w) of
                 (False, w1) \<Rightarrow> Fatalf ErrArchiving w1
               | (True, w1) \<Rightarrow>
                   (case slice_to (backupStamps t) (int (length (backupStamps t)) - 2) of
                      None \<Rightarrow> panic w1
                    | Some dirs \<Rightarrow>
                        (case remove_loop e dirs w1 of
                           Fatal x w2 \<Rightarrow> Fatal x w2
                         | Done u w2 \<Rightarrow> Done \<lparr>count = 0, backupStamps = []\<rparr> w2))))))
      else Done t w)"

definition cycle :: "config \<Rightarrow> env \<Rightarrow> tracker \<Rightarrow> world \<Rightarrow> tracker outcome" where
  "cycle cfg e t w =
     (case snapshot cfg e t w of
        Fatal x w1 \<Rightarrow> Fatal x w1
      | Done t1 w1 \<Rightarrow> rotation cfg e t1 w1)"

text \<open>
  The loop never ends by itself. \<open>loop\<close> runs one iteration for each element of a
  list of environments (the clock and the outcomes met in that iteration);
  \<open>Done t w\<close> is the state in which the next iteration would start. The sleep at
  the end of an iteration changes nothing in the state: the clock the next iteration
  reads is part of its environment.
\<close>

fun loop :: "config \<Rightarrow> env list \<Rightarrow> tracker \<Rightarrow> world \<Rightarrow> tracker outcome" where
  "loop cfg [] t w = Done t w"
| "loop cfg (e # es) t w =
     (case cycle cfg e t w of
        Fatal x w1 \<Rightarrow> Fatal x w1
      | Done t1 w1 \<Rightarrow> loop cfg es t1 w1)"

text \<open>
  \<^verbatim>\<open>main\<close> of \<^verbatim>\<open>main.go\<close> from the parsed configuration on (line 99): \<open>e0\<close> is the
  environment at startup, \<open>es\<close> that of the iterations. A log file that cannot be
  opened is reported before the log writer is set up, so that line is not in
  \<open>logged\<close>.
\<close>

definition main :: "config \<Rightarrow> env \<Rightarrow> env list \<Rightarrow> world \<Rightarrow> tracker outcome" where
  "main cfg e0 es w =
     (case os_OpenFile e0 (LogPath cfg) w of
        (False, w1) \<Rightarrow> Fatal ErrLogFile w1
      | (True, w1) \<Rightarrow>
          (if \<not> checkRequirements e0 then Fatalf ErrRequirements w1
           else if \<not> directoryExists e0 w1 (DataPath cfg) then Fatalf ErrDataDir w1
           else (case ensureDir e0 (BackupPath cfg) w1 of
                   (False, w2) \<Rightarrow> Fatalf ErrBackupDir w2
                 | (True, w2) \<Rightarrow>
                     (case ensureDir e0 (ArchivePath cfg) w2 of
                        (False, w3) \<Rightarrow> Fatalf ErrArchiveDir w3
                      | (True, w3) \<Rightarrow> loop cfg es \<lparr>count = 0, backupStamps = []\<rparr> w3))))"

text \<open>The same three parts of \<^verbatim>\<open>part_000\<close> (lines 147 to 174, 175 to 191, 181 to 188).\<close>

definition hashes :: string where
  "hashes = replicate 62 CHR ''#''"

definition snapshot_p0 :: "config \<Rightarrow> env \<Rightarrow> tracker \<Rightarrow> world \<Rightarrow> tracker outcome" where
  "snapshot_p0 cfg e t w =
     (let dir = Format (now e);
          w0 = logf (''running backup #'' @ decimal (nat (count t)) @ '' : '' @ dir) (logf hashes w);
          backupPath = Join (BackupPath cfg) dir
      in case ensureDir_p0 e backupPath w0 of
           (False, w1) \<Rightarrow> Fatalf ErrCycleDir w1
         | (True, w1) \<Rightarrow>
             (let dumpFileName = Name (DB cfg) @ ''-'' @ dir @ ''.sql'';
                  dumpFilePath = Join backupPath dumpFileName
              in case mysqldump_p0 e (User (DB cfg)) (Password (DB cfg)) (Name (DB cfg))
                        dumpFilePath w1 of
                   (False, w2) \<Rightarrow> Fatalf ErrSqlDump w2
                 | (True, w2) \<Rightarrow>
                     (let dataBackupPath = backupPath
                      in case rsyncData e (DataPath cfg) dataBackupPath w2 of
                           (False, w3) \<Rightarrow> Fatalf ErrRsync w3
                         | (True, w3) \<Rightarrow>
                             Done \<lparr>count = count t + 1,
                                   backupStamps = backupStamps t @ [backupPath]\<rparr> w3)))"

fun remove_loop_p0 :: "env \<Rightarrow> path list \<Rightarrow> world \<Rightarrow> unit outcome" where
  "remove_loop_p0 e [] w = Done () w"
| "remove_loop_p0 e (dir # dirs) w =
     (if directoryExists e w dir
      then (case os_RemoveAll e dir (logf (''removing directory: '' @ dir) w) of
              (False, w1) \<Rightarrow> Fatalf ErrRemove w1
            | (True, w1) \<Rightarrow> remove_loop_p0 e dirs w1)
      else remove_loop_p0 e dirs w)"

definition rotation_p0 :: "config \<Rightarrow> env \<Rightarrow> path \<Rightarrow> tracker \<Rightarrow> world \<Rightarrow> tracker outcome" where
  "rotation_p0 cfg e backupPath t w =
     (if count t = Threshhold cfg then
        (case rsyncData e backupPath (ArchivePath cfg) (logf (decimal (nat (count t)) @ '' backups: starting cleanup'') w) of
           (False, w1) \<Rightarrow> Fatalf ErrMove w1
         | (True, w1) \<Rightarrow>
             (case slice_to (backupStamps t) (Threshhold cfg - 1) of
                None \<Rightarrow> panic w1
              | Some dirs \<Rightarrow>
                  (case remove_loop_p0 e dirs w1 of
                     Fatal x w2 \<Rightarrow> Fatal x w2
                   | Done u w2 \<Rightarrow> Done \<lparr>count = 0, backupStamps = []\<rparr> w2)))
      else Done t w)"

definition cycle_p0 :: "config \<Rightarrow> env \<Rightarrow> tracker \<Rightarrow> world \<Rightarrow> tracker outcome" where
  "cycle_p0 cfg e t w =
     (case snapshot_p0 cfg e t w of
        Fatal x w1 \<Rightarrow> Fatal x w1
      | Done t1 w1 \<Rightarrow>
          (case rotation_p0 cfg e (Join (BackupPath cfg) (Format (now e))) t1 w1 of
             Fatal x w2 \<Rightarrow> Fatal x w2
           | Done t2 w2 \<Rightarrow> Done t2 (logf hashes w2)))"

fun loop_p0 :: "config \<Rightarrow> env list \<Rightarrow> tracker \<Rightarrow> world \<Rightarrow> tracker outcome" where
  "loop_p0 cfg [] t w = Done t w"
| "loop_p0 cfg (e # es) t w =
     (case cycle_p0 cfg e t w of
        Fatal x w1 \<Rightarrow> Fatal x w1
      | Done t1 w1 \<Rightarrow> loop_p0 cfg es t1 w1)"

definition main_p0 :: "config \<Rightarrow> env \<Rightarrow> env list \<Rightarrow> world \<Rightarrow> tracker outcome" where
  "main_p0 cfg e0 es w =
     (case os_OpenFile e0 (LogPath cfg) w of
        (False, w1) \<Rightarrow> Fatal ErrLogFile w1
      | (True, w1) \<Rightarrow>
          (if \<not> checkRequirements_p0 e0 then Fatalf ErrRequirements w1
           else if \<not> directoryExists e0 w1 (DataPath cfg) then Fatalf ErrDataDir w1
           else (case ensureDir_p0 e0 (BackupPath cfg) w1 of
                   (False, w2) \<Rightarrow> Fatalf ErrBackupDir w2
                 | (True, w2) \<Rightarrow>
                     (case ensureDir_p0 e0 (ArchivePath cfg) w2 of
                        (False, w3) \<Rightarrow> Fatalf ErrArchiveDir w3
                      | (True, w3) \<Rightarrow> loop_p0 cfg es \<lparr>count = 0, backupStamps = []\<rparr> w3))))"

section \<open>Reading the record of calls\<close>

text \<open>The calls a piece of the program added when it took \<open>w\<close> to \<open>w'\<close>.\<close>

definition new_calls :: "world \<Rightarrow> world \<Rightarrow> call list" where
  "new_calls w w' = drop (length (calls w)) (calls w')"

text \<open>The paths given to \<^verbatim>\<open>os.RemoveAll\<close>, and the argument vectors of the processes started.\<close>

fun removed :: "call list \<Rightarrow> path list" where
  "removed [] = []"
| "removed (RemoveAll d # cs) = d # removed cs"
| "removed (c # cs) = removed cs"

fun executed :: "call list \<Rightarrow> string list list" where
  "executed [] = []"
| "executed (Exec argv # cs) = argv # executed cs"
| "executed (c # cs) = executed cs"

fun created :: "call list \<Rightarrow> path list" where
  "created [] = []"
| "created (Mkdir d # cs) = d # created cs"
| "created (c # cs) = created cs"


section \<open>A concrete installation\<close>

text \<open>
  A configuration with the given threshold, a machine on which everything succeeds
  on the given day of January 2024, one on which only \<^verbatim>\<open>rsync\<close> fails, one without
  \<^verbatim>\<open>mysqldump\<close> on the search path, one whose clock shows the afternoon of the
  first day, a disk that holds the data directory only, and a disk that also holds
  the snapshot directory of the second day.
\<close>

definition cfg_with :: "int \<Rightarrow> config" where
  "cfg_with n =
     \<lparr>DB = \<lparr>Name = ''shop'', User = ''u'', Password = ''p''\<rparr>, LogPath = ''/log'',
      DataPath = ''/data'', BackupPath = ''/b'', ArchivePath = ''/a'', DayInterval = 1,
      Threshhold = n\<rparr>"

definition at_time :: "nat \<Rightarrow> nat \<Rightarrow> timestamp" where
  "at_time d h = \<lparr>year = 2024, month = 1, day = d, hour = h, minute = 0, second = 0\<rparr>"

definition on_day :: "nat \<Rightarrow> env" where
  "on_day d =
     \<lparr>now = at_time d 3, look_path = (\<lambda>tool. True), stat_fails = (\<lambda>p. False),
      mkdir_ok = (\<lambda>d. True),
      open_ok = (\<lambda>p. True), proc = (\<lambda>argv. (True, ''dump'')), remove_ok = (\<lambda>d. True)\<rparr>"

definition rsync_fails :: "nat \<Rightarrow> env" where
  "rsync_fails d = (on_day d)\<lparr>proc := (\<lambda>argv. (hd argv \<noteq> ''rsync'', ''dump''))\<rparr>"

definition no_mysqldump :: env where
  "no_mysqldump = (on_day 1)\<lparr>look_path := (\<lambda>tool. tool \<noteq> ''mysqldump'')\<rparr>"

definition disk0 :: world where
  "disk0 = \<lparr>fs = [''/data'' \<mapsto> Dir], logged = [], calls = []\<rparr>"


definition afternoon :: env where
  "afternoon = (on_day 1)\<lparr>now := at_time 1 15\<rparr>"

text \<open>The snapshot directories of the first three days.\<close>

definition S1 :: path where "S1 = ''/b/2024-01-01''"

definition S2 :: path where "S2 = ''/b/2024-01-02''"

definition S3 :: path where "S3 = ''/b/2024-01-03''"

text \<open>
  Runs of \<^verbatim>\<open>main.go\<close> with threshold 3: two iterations, the third up to the rotation
  and its rotation; the whole program over three iterations; four iterations and
  the snapshot of a fifth.
\<close>

definition two_done :: "tracker outcome" where
  "two_done = loop (cfg_with 3) [on_day 1, on_day 2] empty_tracker disk0"

definition third_snapshot :: "tracker outcome" where
  "third_snapshot = snapshot (cfg_with 3) (on_day 3) (result two_done) (world_of two_done)"

definition third_rotation :: "tracker outcome" where
  "third_rotation =
     rotation (cfg_with 3) (on_day 3) (result third_snapshot) (world_of third_snapshot)"

definition three_cycles :: "tracker outcome" where
  "three_cycles = main (cfg_with 3) (on_day 1) [on_day 1, on_day 2, on_day 3] disk0"

definition four_cycles :: "tracker outcome" where
  "four_cycles =
     loop (cfg_with 3) [on_day 1, on_day 2, on_day 3, on_day 4] empty_tracker disk0"

definition fifth_snapshot :: "tracker outcome" where
  "fifth_snapshot =
     snapshot (cfg_with 3) (on_day 5) (result four_cycles) (world_of four_cycles)"

text \<open>Runs with threshold 2, in both revisions: two iterations, and the one after them.\<close>

definition pair_done :: "tracker outcome" where
  "pair_done = loop (cfg_with 2) [on_day 1, on_day 2] empty_tracker disk0"

definition after_pair :: "tracker outcome" where
  "after_pair = cycle (cfg_with 2) (on_day 3) (result pair_done) (world_of pair_done)"

definition pair_done_p0 :: "tracker outcome" where
  "pair_done_p0 = loop_p0 (cfg_with 2) [on_day 1, on_day 2] empty_tracker disk0"

definition after_pair_p0 :: "tracker outcome" where
  "after_pair_p0 =
     cycle_p0 (cfg_with 2) (on_day 3) (result pair_done_p0) (world_of pair_done_p0)"

definition first_of_pair :: "tracker outcome" where
  "first_of_pair = cycle (cfg_with 2) (on_day 1) empty_tracker disk0"

definition second_of_pair :: "tracker outcome" where
  "second_of_pair =
     cycle (cfg_with 2) (on_day 2) \<lparr>count = 1, backupStamps = [S1]\<rparr> (world_of first_of_pair)"

text \<open>The first iteration on a machine where the copy fails, in both revisions.\<close>

definition copy_fails :: "tracker outcome" where
  "copy_fails = cycle (cfg_with 3) (rsync_fails 1) empty_tracker disk0"

definition copy_fails_p0 :: "tracker outcome" where
  "copy_fails_p0 = cycle_p0 (cfg_with 3) (rsync_fails 1) empty_tracker disk0"




text \<open>Two snapshots on one day, in both revisions.\<close>

definition morning_snapshot :: "tracker outcome" where
  "morning_snapshot = snapshot (cfg_with 3) (on_day 1) empty_tracker disk0"

definition afternoon_snapshot :: "tracker outcome" where
  "afternoon_snapshot =
     snapshot (cfg_with 3) afternoon (result morning_snapshot) (world_of morning_snapshot)"

definition morning_snapshot_p0 :: "tracker outcome" where
  "morning_snapshot_p0 = snapshot_p0 (cfg_with 3) (on_day 1) empty_tracker disk0"

definition afternoon_snapshot_p0 :: "tracker outcome" where
  "afternoon_snapshot_p0 =
     snapshot_p0 (cfg_with 3) afternoon (result morning_snapshot_p0)
       (world_of morning_snapshot_p0)"

text \<open>
  \<^verbatim>\<open>part_000\<close> with threshold 2: the first iteration, and a second one on the next
  day or on the same day.
\<close>

definition first_of_pair_p0 :: "tracker outcome" where
  "first_of_pair_p0 = cycle_p0 (cfg_with 2) (on_day 1) empty_tracker disk0"

definition second_of_pair_p0 :: "tracker outcome" where
  "second_of_pair_p0 =
     cycle_p0 (cfg_with 2) (on_day 2) \<lparr>count = 1, backupStamps = [S1]\<rparr>
       (world_of first_of_pair_p0)"

definition same_day_second_p0 :: "tracker outcome" where
  "same_day_second_p0 =
     cycle_p0 (cfg_with 2) afternoon \<lparr>count = 1, backupStamps = [S1]\<rparr>
       (world_of first_of_pair_p0)"

section \<open>Basic facts\<close>

lemma directoryExists_iff:
  "directoryExists e w d \<longleftrightarrow> stat_fails e d \<or> fs w d \<noteq> None"
  by (simp add: directoryExists_def os_Stat_def IsNotExist_def split: option.splits)

lemma logf_fs [simp]: "fs (logf s w) = fs w" "calls (logf s w) = calls w"
  by (simp_all add: logf_def)

lemma directoryExists_logf [simp]:
  "directoryExists e (logf s w) d = directoryExists e w d"
  by (simp add: directoryExists_iff)

lemma running_fs [simp]: "fs (running c w) = fs w" "calls (running c w) = calls w"
  by (simp_all add: running_def)

lemma write_file_calls [simp]: "calls (write_file p s w) = calls w"
  by (simp add: write_file_def split: option.splits node.splits)

lemma Run_calls: "calls (snd (Run e c w)) = calls w @ [Exec (Args c)]"
  by (simp add: Run_def Let_def split: sink.splits)


lemma removed_append [simp]: "removed (xs @ ys) = removed xs @ removed ys"
  by (induction xs rule: removed.induct) auto

lemma removed_map [simp]: "removed (map RemoveAll rs) = rs"
  by (induction rs) auto

lemma executed_map [simp]: "executed (map RemoveAll rs) = []"
  by (induction rs) auto

lemma created_append [simp]: "created (xs @ ys) = created xs @ created ys"
  by (induction xs rule: created.induct) auto

lemma Run_fs_log: "Stdout c = ToLog \<Longrightarrow> fs (snd (Run e c w)) = fs w"
  by (simp add: Run_def Let_def)

lemma rsyncData_fs [simp]: "fs (snd (rsyncData e src dst w)) = fs w"
  by (simp add: rsyncData_def Let_def Run_fs_log setCmdOut_def)

lemma remove_tree_other:
  "q \<noteq> d \<Longrightarrow> \<not> prefix (d @ ''/'') q \<Longrightarrow> remove_tree f d q = f q"
  by (simp add: remove_tree_def)

lemma mysqldump_fs [simp]: "fs (snd (mysqldump e user pw db dst w)) = fs w"
  by (simp add: mysqldump_def Let_def Run_fs_log setCmdOut_def)


text \<open>Reading a concrete run that was evaluated through a case distinction.\<close>

lemma outcome_caseD:
  "(case r of Fatal x w \<Rightarrow> False | Done t w \<Rightarrow> P t w) \<Longrightarrow>
     is_Done r \<and> P (result r) (world_of r)"
  by (cases r) simp_all

lemma outcome_caseD_Fatal:
  "(case r of Fatal x w \<Rightarrow> P x w | Done t w \<Rightarrow> False) \<Longrightarrow>
     is_Fatal r \<and> P (reason r) (world_of r)"
  by (cases r) simp_all

subsection \<open>The calls of the removal loops\<close>

lemma remove_loop_calls:
  "remove_loop e ds w = Done u w' \<Longrightarrow>
     \<exists>rs. calls w' = calls w @ map RemoveAll rs \<and> set rs \<subseteq> set ds"
proof (induction ds arbitrary: w)
  case Nil
  then show ?case by simp
next
  case (Cons d ds)
  show ?case
  proof (cases "directoryExists e w d")
    case False
    with Cons.prems have "remove_loop e ds w = Done u w'" by simp
    from Cons.IH[OF this] show ?thesis by auto
  next
    case True
    show ?thesis
    proof (cases "remove_ok e d")
      case False
      with True Cons.prems show ?thesis
        by (simp add: os_RemoveAll_def Fatalf_def)
    next
      case ok: True
      let ?w1 = "w\<lparr>fs := remove_tree (fs w) d, calls := calls w @ [RemoveAll d]\<rparr>"
      from True ok Cons.prems have "remove_loop e ds ?w1 = Done u w'"
        by (simp add: os_RemoveAll_def)
      from Cons.IH[OF this] obtain rs where
        "calls w' = calls ?w1 @ map RemoveAll rs" "set rs \<subseteq> set ds" by auto
      then have "calls w' = calls w @ map RemoveAll (d # rs) \<and> set (d # rs) \<subseteq> set (d # ds)"
        by auto
      then show ?thesis by blast
    qed
  qed
qed

lemma remove_loop_p0_calls:
  "remove_loop_p0 e ds w = Done u w' \<Longrightarrow>
     \<exists>rs. calls w' = calls w @ map RemoveAll rs \<and> set rs \<subseteq> set ds"
proof (induction ds arbitrary: w)
  case Nil
  then show ?case by simp
next
  case (Cons d ds)
  show ?case
  proof (cases "directoryExists e w d")
    case False
    with Cons.prems have "remove_loop_p0 e ds w = Done u w'" by simp
    from Cons.IH[OF this] show ?thesis by auto
  next
    case True
    show ?thesis
    proof (cases "remove_ok e d")
      case False
      with True Cons.prems show ?thesis
        by (simp add: os_RemoveAll_def Fatalf_def)
    next
      case ok: True
      let ?w0 = "logf (''removing directory: '' @ d) w"
      let ?w1 = "?w0\<lparr>fs := remove_tree (fs ?w0) d, calls := calls ?w0 @ [RemoveAll d]\<rparr>"
      from True ok Cons.prems have "remove_loop_p0 e ds ?w1 = Done u w'"
        by (simp add: os_RemoveAll_def)
      from Cons.IH[OF this] obtain rs where
        "calls w' = calls ?w1 @ map RemoveAll rs" "set rs \<subseteq> set ds" by auto
      then have "calls w' = calls w @ map RemoveAll (d # rs) \<and> set (d # rs) \<subseteq> set (d # ds)"
        by auto
      then show ?thesis by blast
    qed
  qed
qed

lemma remove_loop_Fatal: "remove_loop e ds w = Fatal x w' \<Longrightarrow> x = ErrRemove"
  by (induction ds arbitrary: w)
     (auto simp: os_RemoveAll_def Fatalf_def split: if_splits)

lemma remove_loop_p0_Fatal: "remove_loop_p0 e ds w = Fatal x w' \<Longrightarrow> x = ErrRemove"
  by (induction ds arbitrary: w)
     (auto simp: os_RemoveAll_def Fatalf_def split: if_splits)

subsection \<open>What a snapshot records and calls\<close>

lemma snapshot_Done:
  "snapshot cfg e t w = Done t1 w1 \<Longrightarrow>
     t1 = \<lparr>count = count t + 1,
           backupStamps = backupStamps t @ [Join (BackupPath cfg) (Format (now e))]\<rparr>"
  by (auto simp: snapshot_def Let_def Fatalf_def split: prod.splits bool.splits)

lemma snapshot_p0_Done:
  "snapshot_p0 cfg e t w = Done t1 w1 \<Longrightarrow>
     t1 = \<lparr>count = count t + 1,
           backupStamps = backupStamps t @ [Join (BackupPath cfg) (Format (now e))]\<rparr>"
  by (auto simp: snapshot_p0_def Let_def Fatalf_def split: prod.splits bool.splits)

lemma ensureDir_calls:
  "\<exists>cs. calls (snd (ensureDir e d w)) = calls w @ cs \<and> removed cs = []"
  by (auto simp: ensureDir_def os_Mkdir_def)

lemma ensureDir_p0_calls:
  "\<exists>cs. calls (snd (ensureDir_p0 e d w)) = calls w @ cs \<and> removed cs = []"
  by (auto simp: ensureDir_p0_def os_Mkdir_def)

lemma snapshot_calls:
  assumes "snapshot cfg e t w = Done t1 w1"
  shows "\<exists>cs. calls w1 = calls w @ cs \<and> removed cs = []"
proof -
  let ?bp = "Join (BackupPath cfg) (Format (now e))"
  obtain cs where a: "calls (snd (ensureDir e ?bp w)) = calls w @ cs" "removed cs = []"
    using ensureDir_calls by blast
  from assms have "\<exists>c1 c2. calls w1 = calls (snd (ensureDir e ?bp w)) @ [Exec c1, Exec c2]"
    by (auto simp: snapshot_def Let_def Fatalf_def mysqldump_def rsyncData_def Run_def
          setCmdOut_def Command_def split: prod.splits bool.splits)
  with a show ?thesis by auto
qed

lemma snapshot_p0_calls:
  assumes "snapshot_p0 cfg e t w = Done t1 w1"
  shows "\<exists>cs. calls w1 = calls w @ cs \<and> removed cs = []"
proof -
  let ?bp = "Join (BackupPath cfg) (Format (now e))"
  let ?w0 = "logf (''running backup #'' @ decimal (nat (count t)) @ '' : '' @ Format (now e))
               (logf hashes w)"
  obtain cs where a: "calls (snd (ensureDir_p0 e ?bp ?w0)) = calls w @ cs" "removed cs = []"
    using ensureDir_p0_calls[of e ?bp ?w0] by auto
  from assms have "\<exists>c0 c1 c2. calls w1 =
      calls (snd (ensureDir_p0 e ?bp ?w0)) @ [OpenFile c0, Exec c1, Exec c2]"
    by (auto simp: snapshot_p0_def Let_def Fatalf_def mysqldump_p0_def rsyncData_def Run_def
          os_OpenFile_def setCmdOut_def Command_def split: prod.splits bool.splits if_splits)
  with a show ?thesis by auto
qed

lemma ensureDir_created:
  "fst (ensureDir e d w) \<Longrightarrow>
     calls (snd (ensureDir e d w)) =
       calls w @ (if directoryExists e w d then [] else [Mkdir d])"
  by (auto simp: ensureDir_def os_Mkdir_def)

lemma ensureDir_p0_created:
  "fst (ensureDir_p0 e d w) \<Longrightarrow>
     calls (snd (ensureDir_p0 e d w)) =
       calls w @ (if directoryExists e w d then [] else [Mkdir d])"
  by (auto simp: ensureDir_p0_def os_Mkdir_def)

lemma snapshot_created:
  assumes "snapshot cfg e t w = Done t1 w1"
  shows "created (new_calls w w1) =
     (if directoryExists e w (Join (BackupPath cfg) (Format (now e))) then []
      else [Join (BackupPath cfg) (Format (now e))])"
proof -
  let ?bp = "Join (BackupPath cfg) (Format (now e))"
  from assms have ok: "fst (ensureDir e ?bp w)"
    by (auto simp: snapshot_def Let_def Fatalf_def split: prod.splits bool.splits)
  from assms have "\<exists>c1 c2. calls w1 = calls (snd (ensureDir e ?bp w)) @ [Exec c1, Exec c2]"
    by (auto simp: snapshot_def Let_def Fatalf_def mysqldump_def rsyncData_def Run_def
          setCmdOut_def Command_def split: prod.splits bool.splits)
  with ensureDir_created[OF ok] show ?thesis
    by (auto simp: new_calls_def)
qed

lemma snapshot_p0_created:
  assumes "snapshot_p0 cfg e t w = Done t1 w1"
  shows "created (new_calls w w1) =
     (if directoryExists e w (Join (BackupPath cfg) (Format (now e))) then []
      else [Join (BackupPath cfg) (Format (now e))])"
proof -
  let ?bp = "Join (BackupPath cfg) (Format (now e))"
  let ?w0 = "logf (''running backup #'' @ decimal (nat (count t)) @ '' : '' @ Format (now e))
               (logf hashes w)"
  from assms have ok: "fst (ensureDir_p0 e ?bp ?w0)"
    by (auto simp: snapshot_p0_def Let_def Fatalf_def split: prod.splits bool.splits)
  from assms have "\<exists>c0 c1 c2. calls w1 =
      calls (snd (ensureDir_p0 e ?bp ?w0)) @ [OpenFile c0, Exec c1, Exec c2]"
    by (auto simp: snapshot_p0_def Let_def Fatalf_def mysqldump_p0_def rsyncData_def Run_def
          os_OpenFile_def setCmdOut_def Command_def split: prod.splits bool.splits if_splits)
  with ensureDir_p0_created[OF ok] show ?thesis
    by (auto simp: new_calls_def)
qed

lemma ensureDir_there:
  "fst (ensureDir e d w) \<Longrightarrow> \<not> stat_fails e d \<Longrightarrow> fs (snd (ensureDir e d w)) d \<noteq> None"
  by (auto simp: ensureDir_def os_Mkdir_def directoryExists_iff split: if_splits)

lemma ensureDir_p0_there:
  "fst (ensureDir_p0 e d w) \<Longrightarrow> \<not> stat_fails e d \<Longrightarrow>
     fs (snd (ensureDir_p0 e d w)) d \<noteq> None"
  by (auto simp: ensureDir_p0_def os_Mkdir_def directoryExists_iff split: if_splits)

lemma mysqldump_p0_there:
  "fs w q \<noteq> None \<Longrightarrow> fs (snd (mysqldump_p0 e user pw db dst w)) q \<noteq> None"
  by (auto simp: mysqldump_p0_def os_OpenFile_def Run_def Let_def write_file_def Command_def
           split: option.splits node.splits if_splits)

lemma snapshot_there:
  assumes "snapshot cfg e t w = Done t1 w1"
    and "\<not> stat_fails e (Join (BackupPath cfg) (Format (now e)))"
  shows "fs w1 (Join (BackupPath cfg) (Format (now e))) \<noteq> None"
proof -
  let ?bp = "Join (BackupPath cfg) (Format (now e))"
  from assms(1) have ok: "fst (ensureDir e ?bp w)"
    by (auto simp: snapshot_def Let_def Fatalf_def split: prod.splits bool.splits)
  from assms(1) have "w1 =
      snd (rsyncData e (DataPath cfg) (Join ?bp ''data'')
        (snd (mysqldump e (User (DB cfg)) (Password (DB cfg)) (Name (DB cfg))
           (Join ?bp (Name (DB cfg) @ ''-'' @ Format (now e) @ ''.sql''))
           (snd (ensureDir e ?bp w)))))"
    by (auto simp: snapshot_def Let_def Fatalf_def split: prod.splits bool.splits)
  then have "fs w1 = fs (snd (ensureDir e ?bp w))" by simp
  with ensureDir_there[OF ok assms(2)] show ?thesis by simp
qed

lemma snapshot_p0_there:
  assumes "snapshot_p0 cfg e t w = Done t1 w1"
    and "\<not> stat_fails e (Join (BackupPath cfg) (Format (now e)))"
  shows "fs w1 (Join (BackupPath cfg) (Format (now e))) \<noteq> None"
proof -
  let ?bp = "Join (BackupPath cfg) (Format (now e))"
  let ?w0 = "logf (''running backup #'' @ decimal (nat (count t)) @ '' : '' @ Format (now e))
               (logf hashes w)"
  from assms(1) have ok: "fst (ensureDir_p0 e ?bp ?w0)"
    by (auto simp: snapshot_p0_def Let_def Fatalf_def split: prod.splits bool.splits)
  from assms(1) have "w1 =
      snd (rsyncData e (DataPath cfg) ?bp
        (snd (mysqldump_p0 e (User (DB cfg)) (Password (DB cfg)) (Name (DB cfg))
           (Join ?bp (Name (DB cfg) @ ''-'' @ Format (now e) @ ''.sql''))
           (snd (ensureDir_p0 e ?bp ?w0)))))"
    by (auto simp: snapshot_p0_def Let_def Fatalf_def split: prod.splits bool.splits)
  then have "fs w1 ?bp =
      fs (snd (mysqldump_p0 e (User (DB cfg)) (Password (DB cfg)) (Name (DB cfg))
           (Join ?bp (Name (DB cfg) @ ''-'' @ Format (now e) @ ''.sql''))
           (snd (ensureDir_p0 e ?bp ?w0)))) ?bp" by simp
  with mysqldump_p0_there[OF ensureDir_p0_there[OF ok assms(2)]] show ?thesis by simp
qed

subsection \<open>The rotation when it fires\<close>

lemma rotation_skip: "count t \<noteq> Threshhold cfg \<Longrightarrow> rotation cfg e t w = Done t w"
  by (simp add: rotation_def)

lemma rotation_p0_skip: "count t \<noteq> Threshhold cfg \<Longrightarrow> rotation_p0 cfg e b t w = Done t w"
  by (simp add: rotation_p0_def)

lemma rotation_fires_Done:
  "count t = Threshhold cfg \<Longrightarrow> rotation cfg e t w = Done t' w' \<Longrightarrow>
     t' = \<lparr>count = 0, backupStamps = []\<rparr>"
  by (auto simp: rotation_def Let_def Fatalf_def panic_def
           split: option.splits prod.splits bool.splits outcome.splits)

lemma rotation_fires_eq:
  assumes n2: "2 \<le> length (backupStamps t)" and fires: "count t = Threshhold cfg"
  shows "rotation cfg e t w =
     (let olds = take (length (backupStamps t) - 2) (backupStamps t);
          c = setCmdOut (Command ''zip''
                ([''-r'', Join (ArchivePath cfg)
                    (''archive_'' @ backupStamps t ! 0 @ ''_'' @
                     backupStamps t ! (length (backupStamps t) - 2) @ ''.zip'')] @ olds));
          r = Run e c (running c w)
      in if fst r
         then (case remove_loop e olds (snd r) of
                 Fatal x w2 \<Rightarrow> Fatal x w2
               | Done u w2 \<Rightarrow> Done \<lparr>count = 0, backupStamps = []\<rparr> w2)
         else Fatalf ErrArchiving (snd r))"
proof -
  let ?xs = "backupStamps t"
  let ?n = "length ?xs"
  have i0: "index ?xs 0 = Some (?xs ! 0)" using n2 by (auto simp: index_def)
  have i1: "index ?xs (int ?n - 2) = Some (?xs ! (?n - 2))"
    using n2 by (simp add: index_def nat_diff_distrib')
  have sl: "slice_to ?xs (int ?n - 2) = Some (take (?n - 2) ?xs)"
    using n2 by (simp add: slice_to_def nat_diff_distrib')
  show ?thesis
    using fires by (simp add: rotation_def i0 i1 sl Let_def split: prod.splits)
qed

lemma rotation_calls:
  assumes n2: "2 \<le> length (backupStamps t)" and fires: "count t = Threshhold cfg"
    and ok: "rotation cfg e t w = Done t' w'"
  shows "\<exists>a rs. calls w' =
             calls w @
             Exec (''zip'' # ''-r'' # a # take (length (backupStamps t) - 2) (backupStamps t)) #
             map RemoveAll rs \<and>
           set rs \<subseteq> set (take (length (backupStamps t) - 2) (backupStamps t)) \<and>
           t' = \<lparr>count = 0, backupStamps = []\<rparr>"
proof -
  let ?olds = "take (length (backupStamps t) - 2) (backupStamps t)"
  define a where "a = Join (ArchivePath cfg)
                    (''archive_'' @ backupStamps t ! 0 @ ''_'' @
                     backupStamps t ! (length (backupStamps t) - 2) @ ''.zip'')"
  define c where "c = setCmdOut (Command ''zip'' ([''-r'', a] @ ?olds))"
  define w1 where "w1 = snd (Run e c (running c w))"
  have c1: "calls w1 = calls w @ [Exec (''zip'' # ''-r'' # a # ?olds)]"
    by (simp add: w1_def Run_calls c_def setCmdOut_def Command_def)
  from ok obtain u where rl: "remove_loop e ?olds w1 = Done u w'"
    and t': "t' = \<lparr>count = 0, backupStamps = []\<rparr>"
    unfolding rotation_fires_eq[OF n2 fires] Let_def a_def[symmetric] c_def[symmetric]
      w1_def[symmetric]
    by (auto simp: Fatalf_def split: if_splits outcome.splits)
  from remove_loop_calls[OF rl] obtain rs where
    "calls w' = calls w1 @ map RemoveAll rs" "set rs \<subseteq> set ?olds" by blast
  with c1 t' show ?thesis by auto
qed

lemma rotation_p0_calls:
  assumes fires: "count t = Threshhold cfg"
    and len: "int (length (backupStamps t)) = count t"
    and ok: "rotation_p0 cfg e b t w = Done t' w'"
  shows "\<exists>rs. calls w' =
             calls w @ Exec [''rsync'', ''-a'', b, ArchivePath cfg] # map RemoveAll rs \<and>
           set rs \<subseteq> set (butlast (backupStamps t)) \<and>
           t' = \<lparr>count = 0, backupStamps = []\<rparr>"
proof -
  have n1: "1 \<le> length (backupStamps t)"
  proof (cases "backupStamps t")
    case Nil
    with ok fires len show ?thesis
      by (auto simp: rotation_p0_def slice_to_def Fatalf_def panic_def
               split: prod.splits bool.splits)
  qed simp
  have "nat (Threshhold cfg - 1) = length (backupStamps t) - 1" using fires len by linarith
  then have sp: "slice_to (backupStamps t) (Threshhold cfg - 1) = Some (butlast (backupStamps t))"
    using n1 fires len by (simp add: slice_to_def butlast_conv_take)
  define w1 where "w1 = snd (rsyncData e b (ArchivePath cfg)
      (logf (decimal (nat (count t)) @ '' backups: starting cleanup'') w))"
  have c1: "calls w1 = calls w @ [Exec [''rsync'', ''-a'', b, ArchivePath cfg]]"
    by (simp add: w1_def rsyncData_def Let_def Run_calls setCmdOut_def Command_def)
  from ok fires sp obtain u where rl: "remove_loop_p0 e (butlast (backupStamps t)) w1 = Done u w'"
    and t': "t' = \<lparr>count = 0, backupStamps = []\<rparr>"
    by (auto simp: rotation_p0_def w1_def Fatalf_def
             split: prod.splits bool.splits outcome.splits)
  from remove_loop_p0_calls[OF rl] obtain rs where
    "calls w' = calls w1 @ map RemoveAll rs" "set rs \<subseteq> set (butlast (backupStamps t))"
    by blast
  with c1 t' show ?thesis by auto
qed

subsection \<open>What the removals leave alone\<close>

lemma remove_loop_keeps:
  "remove_loop e ds w = Done u w' \<Longrightarrow>
   (\<And>d. d \<in> set ds \<Longrightarrow> q \<noteq> d \<and> \<not> prefix (d @ ''/'') q) \<Longrightarrow> fs w' q = fs w q"
proof (induction ds arbitrary: w)
  case Nil
  then show ?case by simp
next
  case (Cons d ds)
  have o: "q \<noteq> d" "\<not> prefix (d @ ''/'') q" using Cons.prems(2)[of d] by simp_all
  show ?case
  proof (cases "directoryExists e w d")
    case False
    with Cons.prems(1) have "remove_loop e ds w = Done u w'" by simp
    from Cons.IH[OF this] Cons.prems(2) show ?thesis by simp
  next
    case True
    let ?w1 = "w\<lparr>fs := remove_tree (fs w) d, calls := calls w @ [RemoveAll d]\<rparr>"
    from True Cons.prems(1) have "remove_loop e ds ?w1 = Done u w'"
      by (auto simp: os_RemoveAll_def Fatalf_def split: if_splits)
    from Cons.IH[OF this] Cons.prems(2) have "fs w' q = fs ?w1 q" by simp
    with o show ?thesis by (simp add: remove_tree_other)
  qed
qed

lemma remove_loop_p0_keeps:
  "remove_loop_p0 e ds w = Done u w' \<Longrightarrow>
   (\<And>d. d \<in> set ds \<Longrightarrow> q \<noteq> d \<and> \<not> prefix (d @ ''/'') q) \<Longrightarrow> fs w' q = fs w q"
proof (induction ds arbitrary: w)
  case Nil
  then show ?case by simp
next
  case (Cons d ds)
  have o: "q \<noteq> d" "\<not> prefix (d @ ''/'') q" using Cons.prems(2)[of d] by simp_all
  show ?case
  proof (cases "directoryExists e w d")
    case False
    with Cons.prems(1) have "remove_loop_p0 e ds w = Done u w'" by simp
    from Cons.IH[OF this] Cons.prems(2) show ?thesis by simp
  next
    case True
    let ?w0 = "logf (''removing directory: '' @ d) w"
    let ?w1 = "?w0\<lparr>fs := remove_tree (fs ?w0) d, calls := calls ?w0 @ [RemoveAll d]\<rparr>"
    from True Cons.prems(1) have "remove_loop_p0 e ds ?w1 = Done u w'"
      by (auto simp: os_RemoveAll_def Fatalf_def split: if_splits)
    from Cons.IH[OF this] Cons.prems(2) have "fs w' q = fs ?w1 q" by simp
    with o show ?thesis by (simp add: remove_tree_other)
  qed
qed

lemma rotation_keeps:
  assumes n2: "2 \<le> length (backupStamps t)" and fires: "count t = Threshhold cfg"
    and ok: "rotation cfg e t w = Done t' w'"
    and other: "\<And>d. d \<in> set (take (length (backupStamps t) - 2) (backupStamps t)) \<Longrightarrow>
                  q \<noteq> d \<and> \<not> prefix (d @ ''/'') q"
  shows "fs w' q = fs w q"
proof -
  let ?olds = "take (length (backupStamps t) - 2) (backupStamps t)"
  define c where "c = setCmdOut (Command ''zip''
                ([''-r'', Join (ArchivePath cfg)
                    (''archive_'' @ backupStamps t ! 0 @ ''_'' @
                     backupStamps t ! (length (backupStamps t) - 2) @ ''.zip'')] @ ?olds))"
  define w1 where "w1 = snd (Run e c (running c w))"
  have f1: "fs w1 = fs w"
    by (simp add: w1_def c_def Run_fs_log setCmdOut_def)
  from ok obtain u where rl: "remove_loop e ?olds w1 = Done u w'"
    unfolding rotation_fires_eq[OF n2 fires] Let_def c_def[symmetric] w1_def[symmetric]
    by (auto simp: Fatalf_def split: if_splits outcome.splits)
  from remove_loop_keeps[OF rl other] f1 show ?thesis by simp
qed

lemma rotation_p0_keeps:
  assumes fires: "count t = Threshhold cfg"
    and len: "int (length (backupStamps t)) = count t"
    and ok: "rotation_p0 cfg e b t w = Done t' w'"
    and other: "\<And>d. d \<in> set (butlast (backupStamps t)) \<Longrightarrow>
                  q \<noteq> d \<and> \<not> prefix (d @ ''/'') q"
  shows "fs w' q = fs w q"
proof -
  have n1: "1 \<le> length (backupStamps t)"
  proof (cases "backupStamps t")
    case Nil
    with ok fires len show ?thesis
      by (auto simp: rotation_p0_def slice_to_def Fatalf_def panic_def
               split: prod.splits bool.splits)
  qed simp
  have "nat (Threshhold cfg - 1) = length (backupStamps t) - 1" using fires len by linarith
  then have sp: "slice_to (backupStamps t) (Threshhold cfg - 1) = Some (butlast (backupStamps t))"
    using n1 fires len by (simp add: slice_to_def butlast_conv_take)
  define w1 where "w1 = snd (rsyncData e b (ArchivePath cfg)
      (logf (decimal (nat (count t)) @ '' backups: starting cleanup'') w))"
  have f1: "fs w1 = fs w" by (simp add: w1_def)
  from ok fires sp obtain u where rl: "remove_loop_p0 e (butlast (backupStamps t)) w1 = Done u w'"
    by (auto simp: rotation_p0_def w1_def Fatalf_def
             split: prod.splits bool.splits outcome.splits)
  from remove_loop_p0_keeps[OF rl other] f1 show ?thesis by simp
qed

section \<open>What a rotation retires\<close>

text \<open>
  C1 (a rotation retires exactly the first threshold - 1 tracked snapshots and keeps
  exactly the newest one). In \<^verbatim>\<open>main.go\<close> both the list given to \<^verbatim>\<open>zip\<close> and the list
  the removal loop walks are \<^verbatim>\<open>backupStamps[:len(backupStamps)-2]\<close>: when the rotation
  fires on a tracker of threshold length and completes, the one process it starts is
  \<^verbatim>\<open>zip -r archive\<close> followed by the first threshold - 2 snapshots, and only
  those are passed to \<^verbatim>\<open>os.RemoveAll\<close>. The snapshot before the newest is neither
  archived nor removed.
\<close>

theorem rotation_retires_all_but_two:
  assumes thr: "2 \<le> Threshhold cfg"
    and fires: "count t = Threshhold cfg"
    and len: "int (length (backupStamps t)) = count t"
    and ok: "is_Done (rotation cfg e t w)"
  shows "(\<exists>archivePath.
            executed (new_calls w (world_of (rotation cfg e t w))) =
              [''zip'' # ''-r'' # archivePath #
                 take (length (backupStamps t) - 2) (backupStamps t)]) \<and>
         set (removed (new_calls w (world_of (rotation cfg e t w)))) \<subseteq>
           set (take (length (backupStamps t) - 2) (backupStamps t)) \<and>
         int (length (take (length (backupStamps t) - 2) (backupStamps t))) =
           Threshhold cfg - 2"
proof -
  let ?olds = "take (length (backupStamps t) - 2) (backupStamps t)"
  from thr fires len have n2: "2 \<le> length (backupStamps t)" by linarith
  from ok obtain t' w' where d: "rotation cfg e t w = Done t' w'"
    by (cases "rotation cfg e t w") auto
  from rotation_calls[OF n2 fires d] obtain a rs where
    c: "calls w' = calls w @ Exec (''zip'' # ''-r'' # a # ?olds) # map RemoveAll rs"
    and rs: "set rs \<subseteq> set ?olds" by blast
  have nc: "new_calls w (world_of (rotation cfg e t w)) =
        Exec (''zip'' # ''-r'' # a # ?olds) # map RemoveAll rs"
    by (simp add: d new_calls_def c)
  have "int (length ?olds) = Threshhold cfg - 2"
    using n2 fires len by simp
  with nc rs show ?thesis by simp
qed

lemma third_snapshot_eval:
  "case third_snapshot of
     Fatal x w \<Rightarrow> False
   | Done t w \<Rightarrow> t = \<lparr>count = 3, backupStamps = [S1, S2, S3]\<rparr> \<and>
       (case rotation (cfg_with 3) (on_day 3) t w of
          Fatal x w' \<Rightarrow> False
        | Done t' w' \<Rightarrow> new_calls w w' =
            [Exec [''zip'', ''-r'', ''/a/archive_/b/2024-01-01_/b/2024-01-02.zip'', S1],
             RemoveAll S1])"
  by code_simp

theorem rotation_retires_all_but_two_witness:
  "2 \<le> Threshhold (cfg_with 3) \<and>
   count (result third_snapshot) = Threshhold (cfg_with 3) \<and>
   backupStamps (result third_snapshot) = [S1, S2, S3] \<and>
   is_Done third_rotation \<and>
   (\<exists>archivePath. executed (new_calls (world_of third_snapshot) (world_of third_rotation)) =
      [[''zip'', ''-r'', archivePath, S1]]) \<and>
   set (removed (new_calls (world_of third_snapshot) (world_of third_rotation))) \<subseteq> {S1}"
proof -
  have p1: "2 \<le> Threshhold (cfg_with 3)" by (simp add: cfg_with_def)
  note ev = outcome_caseD[OF third_snapshot_eval]
  from ev have p2: "count (result third_snapshot) = Threshhold (cfg_with 3)"
    and st: "backupStamps (result third_snapshot) = [S1, S2, S3]"
    by (simp_all add: cfg_with_def)
  from ev have "case rotation (cfg_with 3) (on_day 3) (result third_snapshot)
                       (world_of third_snapshot) of
      Fatal x w' \<Rightarrow> False
    | Done t' w' \<Rightarrow> new_calls (world_of third_snapshot) w' =
        [Exec [''zip'', ''-r'', ''/a/archive_/b/2024-01-01_/b/2024-01-02.zip'', S1],
         RemoveAll S1]"
    by blast
  from outcome_caseD[OF this]
  have p4: "is_Done (rotation (cfg_with 3) (on_day 3) (result third_snapshot)
                       (world_of third_snapshot))"
    by blast
  have p3: "int (length (backupStamps (result third_snapshot))) = count (result third_snapshot)"
    using p2 st by (simp add: cfg_with_def)
  from rotation_retires_all_but_two[OF p1 p2 p3 p4] p1 p2 p4 show ?thesis
    by (simp add: st third_rotation_def)
qed

text \<open>
  \<^verbatim>\<open>part_000\<close> walks \<^verbatim>\<open>backupStamps[:cfg.Threshhold-1]\<close> in its removal loop, that is all
  but the newest snapshot; the one process its rotation starts copies the newest
  snapshot to the archive root.
\<close>

lemma rotation_p0_removes_all_but_last:
  assumes "count t = Threshhold cfg" "int (length (backupStamps t)) = count t"
    and "rotation_p0 cfg e b t w = Done t' w'"
  shows "executed (new_calls w w') = [[''rsync'', ''-a'', b, ArchivePath cfg]] \<and>
         set (removed (new_calls w w')) \<subseteq> set (butlast (backupStamps t))"
proof -
  from rotation_p0_calls[OF assms] obtain rs where
    "calls w' = calls w @ Exec [''rsync'', ''-a'', b, ArchivePath cfg] # map RemoveAll rs"
    "set rs \<subseteq> set (butlast (backupStamps t))" by blast
  then show ?thesis by (simp add: new_calls_def)
qed

lemma three_cycles_eval:
  "case three_cycles of
     Fatal x w \<Rightarrow> False
   | Done t w \<Rightarrow> t = \<lparr>count = 0, backupStamps = []\<rparr> \<and>
       last (executed (calls w)) =
         [''zip'', ''-r'', ''/a/archive_/b/2024-01-01_/b/2024-01-02.zip'', S1] \<and>
       removed (calls w) = [S1] \<and>
       fs w S1 = None \<and> fs w S2 = Some Dir \<and> fs w S3 = Some Dir"
  by code_simp

text \<open>
  C2 (with threshold 3, after S1, S2, S3 the rotation archives and deletes S1 and S2,
  leaves S3 and empties the tracker). Running \<^verbatim>\<open>main.go\<close> over three days on which
  everything succeeds: the tracker ends empty and S3 stays, but the archive command
  receives S1 alone, S1 alone is removed, and the directory of S2 is still there.
\<close>

theorem three_cycles_retire_one:
  "is_Done three_cycles \<and>
   result three_cycles = \<lparr>count = 0, backupStamps = []\<rparr> \<and>
   last (executed (calls (world_of three_cycles))) =
     [''zip'', ''-r'', ''/a/archive_/b/2024-01-01_/b/2024-01-02.zip'', S1] \<and>
   removed (calls (world_of three_cycles)) = [S1] \<and>
   fs (world_of three_cycles) S1 = None \<and>
   fs (world_of three_cycles) S2 = Some Dir \<and>
   fs (world_of three_cycles) S3 = Some Dir"
  using outcome_caseD[OF three_cycles_eval] by simp

section \<open>The length of the tracker\<close>

lemma cycle_step:
  assumes inv: "count t = tracked t" "tracked t < Threshhold cfg"
    and run: "cycle cfg e t w = Done t' w'"
  shows "count t' = tracked t' \<and> tracked t' < Threshhold cfg \<and>
         tracked t' = (if tracked t + 1 = Threshhold cfg then 0 else tracked t + 1)"
proof -
  from run obtain t1 w1 where s: "snapshot cfg e t w = Done t1 w1"
    and r: "rotation cfg e t1 w1 = Done t' w'"
    by (auto simp: cycle_def split: outcome.splits)
  note t1 = snapshot_Done[OF s]
  show ?thesis
  proof (cases "count t1 = Threshhold cfg")
    case True
    from rotation_fires_Done[OF True r] inv True t1 show ?thesis
      by (simp add: tracked_def)
  next
    case False
    with r have "t' = t1" by (simp add: rotation_skip)
    with inv False t1 show ?thesis by (simp add: tracked_def)
  qed
qed

lemma loop_tracked:
  assumes "count t = tracked t" "0 \<le> tracked t" "tracked t < Threshhold cfg"
    and "loop cfg es t w = Done t' w'"
  shows "count t' = tracked t' \<and> tracked t' < Threshhold cfg \<and>
         tracked t' = (tracked t + int (length es)) mod Threshhold cfg"
  using assms
proof (induction es arbitrary: t w)
  case Nil
  then show ?case by simp
next
  case (Cons e es)
  from Cons.prems(4) obtain t1 w1 where c: "cycle cfg e t w = Done t1 w1"
    and l: "loop cfg es t1 w1 = Done t' w'"
    by (auto split: outcome.splits)
  from cycle_step[OF Cons.prems(1) Cons.prems(3) c]
  have i1: "count t1 = tracked t1" "tracked t1 < Threshhold cfg"
    and v: "tracked t1 = (if tracked t + 1 = Threshhold cfg then 0 else tracked t + 1)"
    by auto
  from v Cons.prems(2) have nn: "0 \<le> tracked t1" by (simp split: if_splits)
  from v Cons.prems(2,3) have m: "tracked t1 = (tracked t + 1) mod Threshhold cfg"
    by (auto split: if_splits)
  from Cons.IH[OF i1(1) nn i1(2) l]
  have "count t' = tracked t'" "tracked t' < Threshhold cfg"
    and e: "tracked t' = (tracked t1 + int (length es)) mod Threshhold cfg" by auto
  moreover have "(tracked t1 + int (length es)) mod Threshhold cfg =
      (tracked t + int (length (e # es))) mod Threshhold cfg"
  proof -
    have "(tracked t1 + int (length es)) mod Threshhold cfg =
        ((tracked t + 1) mod Threshhold cfg + int (length es)) mod Threshhold cfg"
      by (simp only: m)
    also have "\<dots> = (tracked t + 1 + int (length es)) mod Threshhold cfg"
      by (rule mod_add_left_eq)
    also have "tracked t + 1 + int (length es) = tracked t + int (length (e # es))"
      by simp
    finally show ?thesis .
  qed
  ultimately show ?case by simp
qed

text \<open>
  C3 (the tracker grows by one per successful cycle, is reset to 0 exactly when it
  reaches the threshold, and never exceeds it). For a threshold of at least 1, which
  covers the configurations the data model admits (threshold at least 2): after any
  number of iterations of \<^verbatim>\<open>main.go\<close> that all went through, the tracker holds that
  number modulo the threshold, \<^verbatim>\<open>count\<close> equals its length, and the length is below
  the threshold; the snapshot of the next iteration makes it one longer, at most the
  threshold; and the whole next iteration leaves it at 0 if that reached the
  threshold, one longer otherwise.
\<close>

theorem tracker_length_follows_cycles:
  assumes thr: "1 \<le> Threshhold cfg"
    and run: "loop cfg es empty_tracker w = Done t w1"
  shows "tracked t = int (length es) mod Threshhold cfg \<and>
         count t = tracked t \<and>
         tracked t < Threshhold cfg \<and>
         (\<forall>e t2 w2. snapshot cfg e t w1 = Done t2 w2 \<longrightarrow>
            tracked t2 = tracked t + 1 \<and> tracked t2 \<le> Threshhold cfg) \<and>
         (\<forall>e t3 w3. cycle cfg e t w1 = Done t3 w3 \<longrightarrow>
            tracked t3 = (if tracked t + 1 = Threshhold cfg then 0 else tracked t + 1))"
proof -
  have e0: "count empty_tracker = tracked empty_tracker" "0 \<le> tracked empty_tracker"
    "tracked empty_tracker < Threshhold cfg"
    using thr by (simp_all add: empty_tracker_def tracked_def)
  from loop_tracked[OF e0 run]
  have inv: "count t = tracked t" "tracked t < Threshhold cfg"
    and m: "tracked t = int (length es) mod Threshhold cfg"
    by (simp_all add: tracked_def empty_tracker_def)
  have snap: "tracked t2 = tracked t + 1 \<and> tracked t2 \<le> Threshhold cfg"
    if "snapshot cfg e t w1 = Done t2 w2" for e t2 w2
    using snapshot_Done[OF that] inv by (simp add: tracked_def)
  have cyc: "tracked t3 = (if tracked t + 1 = Threshhold cfg then 0 else tracked t + 1)"
    if "cycle cfg e t w1 = Done t3 w3" for e t3 w3
    using cycle_step[OF inv that] by simp
  from inv m snap cyc show ?thesis by blast
qed

lemma four_cycles_eval:
  "case four_cycles of
     Fatal x w \<Rightarrow> False
   | Done t w \<Rightarrow> backupStamps t = [''/b/2024-01-04''] \<and>
       (case snapshot (cfg_with 3) (on_day 5) t w of
          Fatal x w' \<Rightarrow> False
        | Done t' w' \<Rightarrow> True)"
  by code_simp

theorem tracker_length_follows_cycles_witness:
  "1 \<le> Threshhold (cfg_with 3) \<and> is_Done four_cycles \<and>
   tracked (result four_cycles) = 4 mod 3 \<and>
   count (result four_cycles) = 1 \<and>
   is_Done fifth_snapshot \<and>
   tracked (result fifth_snapshot) = 2"
proof -
  have thr: "1 \<le> Threshhold (cfg_with 3)" by (simp add: cfg_with_def)
  note ev = outcome_caseD[OF four_cycles_eval]
  from ev have d: "is_Done four_cycles" by blast
  from ev have "case snapshot (cfg_with 3) (on_day 5) (result four_cycles)
                       (world_of four_cycles) of
      Fatal x w' \<Rightarrow> False | Done t' w' \<Rightarrow> True" by blast
  from outcome_caseD[OF this] have d5: "is_Done fifth_snapshot"
    by (simp add: fifth_snapshot_def)
  from d have run:
    "loop (cfg_with 3) [on_day 1, on_day 2, on_day 3, on_day 4] empty_tracker disk0 =
       Done (result four_cycles) (world_of four_cycles)"
    by (simp add: four_cycles_def)
  from d5 have s5:
    "snapshot (cfg_with 3) (on_day 5) (result four_cycles) (world_of four_cycles) =
       Done (result fifth_snapshot) (world_of fifth_snapshot)"
    by (simp add: fifth_snapshot_def)
  note th = tracker_length_follows_cycles[OF thr run]
  from th have a: "tracked (result four_cycles) =
      int (length [on_day 1, on_day 2, on_day 3, on_day 4]) mod Threshhold (cfg_with 3)"
    and b: "count (result four_cycles) = tracked (result four_cycles)"
    by blast+
  from th s5 have c: "tracked (result fifth_snapshot) = tracked (result four_cycles) + 1"
    by blast
  from a b c
  have "tracked (result four_cycles) = 4 mod 3" "count (result four_cycles) = 1"
    "tracked (result fifth_snapshot) = 2"
    by (simp_all add: cfg_with_def)
  with thr d d5 show ?thesis by simp
qed

section \<open>Threshold 2\<close>

lemma after_pair_eval:
  "case pair_done of
     Fatal x w \<Rightarrow> False
   | Done t w \<Rightarrow> t = \<lparr>count = 0, backupStamps = []\<rparr> \<and> fs w S2 = Some Dir \<and>
       (case cycle (cfg_with 2) (on_day 3) t w of
          Fatal x w' \<Rightarrow> False
        | Done t' w' \<Rightarrow> backupStamps t' = [S3] \<and>
            new_calls w w' =
              [Mkdir S3,
               Exec [''mysqldump'', ''-u'', ''u'', ''-pp'', ''>'',
                     ''/b/2024-01-03/shop-2024-01-03.sql''],
               Exec [''rsync'', ''-a'', ''/data'', ''/b/2024-01-03/data'']] \<and>
            fs w' S2 = Some Dir)"
  by code_simp

lemma after_pair_p0_eval:
  "case pair_done_p0 of
     Fatal x w \<Rightarrow> False
   | Done t w \<Rightarrow> t = \<lparr>count = 0, backupStamps = []\<rparr> \<and> fs w S2 = Some Dir \<and>
       (case cycle_p0 (cfg_with 2) (on_day 3) t w of
          Fatal x w' \<Rightarrow> False
        | Done t' w' \<Rightarrow> backupStamps t' = [S3] \<and>
            new_calls w w' =
              [Mkdir S3, OpenFile ''/b/2024-01-03/shop-2024-01-03.sql'',
               Exec [''mysqldump'', ''-u'', ''u'', ''-pp'', ''shop''],
               Exec [''rsync'', ''-a'', ''/data'', S3]] \<and>
            fs w' S2 = Some Dir)"
  by code_simp

text \<open>
  With threshold 2 the rotation of the second day empties the tracker, so the
  snapshot of the third day brings it to length 1 only: in both revisions the third
  iteration goes through, starts the export and the copy and nothing else, removes
  nothing, and the snapshot of the second day is still on disk.
\<close>

theorem third_snapshot_rotates_nothing:
  "Threshhold (cfg_with 2) = 2 \<and>
   is_Done pair_done \<and> is_Done after_pair \<and>
   backupStamps (result after_pair) = [S3] \<and>
   executed (new_calls (world_of pair_done) (world_of after_pair)) =
     [[''mysqldump'', ''-u'', ''u'', ''-pp'', ''>'', ''/b/2024-01-03/shop-2024-01-03.sql''],
      [''rsync'', ''-a'', ''/data'', ''/b/2024-01-03/data'']] \<and>
   removed (new_calls (world_of pair_done) (world_of after_pair)) = [] \<and>
   fs (world_of after_pair) S2 = Some Dir \<and>
   is_Done pair_done_p0 \<and> is_Done after_pair_p0 \<and>
   backupStamps (result after_pair_p0) = [S3] \<and>
   executed (new_calls (world_of pair_done_p0) (world_of after_pair_p0)) =
     [[''mysqldump'', ''-u'', ''u'', ''-pp'', ''shop''], [''rsync'', ''-a'', ''/data'', S3]] \<and>
   removed (new_calls (world_of pair_done_p0) (world_of after_pair_p0)) = [] \<and>
   fs (world_of after_pair_p0) S2 = Some Dir"
proof -
  note a = outcome_caseD[OF after_pair_eval]
  from a have "case after_pair of
          Fatal x w' \<Rightarrow> False
        | Done t' w' \<Rightarrow> backupStamps t' = [S3] \<and>
            new_calls (world_of pair_done) w' =
              [Mkdir S3,
               Exec [''mysqldump'', ''-u'', ''u'', ''-pp'', ''>'',
                     ''/b/2024-01-03/shop-2024-01-03.sql''],
               Exec [''rsync'', ''-a'', ''/data'', ''/b/2024-01-03/data'']] \<and>
            fs w' S2 = Some Dir"
    unfolding after_pair_def by blast
  note a' = outcome_caseD[OF this]
  note b = outcome_caseD[OF after_pair_p0_eval]
  from b have "case after_pair_p0 of
          Fatal x w' \<Rightarrow> False
        | Done t' w' \<Rightarrow> backupStamps t' = [S3] \<and>
            new_calls (world_of pair_done_p0) w' =
              [Mkdir S3, OpenFile ''/b/2024-01-03/shop-2024-01-03.sql'',
               Exec [''mysqldump'', ''-u'', ''u'', ''-pp'', ''shop''],
               Exec [''rsync'', ''-a'', ''/data'', S3]] \<and>
            fs w' S2 = Some Dir"
    unfolding after_pair_p0_def by blast
  note b' = outcome_caseD[OF this]
  from a a' b b' show ?thesis by (simp add: cfg_with_def)
qed

text \<open>
  C4, as amended (with threshold 2 every second snapshot triggers a rotation, and the
  new snapshot is kept unless its directory is that of the previous one or below
  it). In both revisions an iteration that starts with the tracker empty is its
  snapshot part and nothing more, and leaves the one new snapshot tracked. An
  iteration that starts with one tracked snapshot \<open>p\<close> and goes through has run the
  rotation: the archive command was started, no directory other than that of \<open>p\<close>
  was given to \<^verbatim>\<open>os.RemoveAll\<close>, and the tracker is empty. If \<open>p\<close> is neither the
  directory of the new snapshot nor above it, that directory is not given to
  \<^verbatim>\<open>os.RemoveAll\<close>, its entry is as the snapshot part left it, and it is on disk
  unless \<^verbatim>\<open>os.Stat\<close> failed on it.
\<close>

theorem threshold_two_rotates_every_second_snapshot:
  assumes thr: "Threshhold cfg = 2"
  shows "cycle cfg e empty_tracker w = snapshot cfg e empty_tracker w \<and>
         cycle_p0 cfg e empty_tracker w =
           (case snapshot_p0 cfg e empty_tracker w of
              Fatal x w1 \<Rightarrow> Fatal x w1
            | Done t1 w1 \<Rightarrow> Done t1 (logf hashes w1)) \<and>
         (is_Done (snapshot cfg e empty_tracker w) \<longrightarrow>
            backupStamps (result (snapshot cfg e empty_tracker w)) =
              [Join (BackupPath cfg) (Format (now e))]) \<and>
         (is_Done (snapshot_p0 cfg e empty_tracker w) \<longrightarrow>
            backupStamps (result (snapshot_p0 cfg e empty_tracker w)) =
              [Join (BackupPath cfg) (Format (now e))]) \<and>
         (\<forall>p. is_Done (cycle cfg e \<lparr>count = 1, backupStamps = [p]\<rparr> w) \<longrightarrow>
            result (cycle cfg e \<lparr>count = 1, backupStamps = [p]\<rparr> w) =
              \<lparr>count = 0, backupStamps = []\<rparr> \<and>
            (\<exists>a. Exec (''zip'' # a) \<in>
               set (new_calls w (world_of (cycle cfg e \<lparr>count = 1, backupStamps = [p]\<rparr> w)))) \<and>
            set (removed
                  (new_calls w (world_of (cycle cfg e \<lparr>count = 1, backupStamps = [p]\<rparr> w))))
              \<subseteq> {p} \<and>
            (p \<noteq> Join (BackupPath cfg) (Format (now e)) \<and>
             \<not> prefix (p @ ''/'') (Join (BackupPath cfg) (Format (now e))) \<longrightarrow>
               Join (BackupPath cfg) (Format (now e)) \<notin>
                 set (removed
                       (new_calls w
                         (world_of (cycle cfg e \<lparr>count = 1, backupStamps = [p]\<rparr> w)))) \<and>
               fs (world_of (cycle cfg e \<lparr>count = 1, backupStamps = [p]\<rparr> w))
                  (Join (BackupPath cfg) (Format (now e))) =
               fs (world_of (snapshot cfg e \<lparr>count = 1, backupStamps = [p]\<rparr> w))
                  (Join (BackupPath cfg) (Format (now e))) \<and>
               (\<not> stat_fails e (Join (BackupPath cfg) (Format (now e))) \<longrightarrow>
                  fs (world_of (cycle cfg e \<lparr>count = 1, backupStamps = [p]\<rparr> w))
                     (Join (BackupPath cfg) (Format (now e))) \<noteq> None))) \<and>
         (\<forall>p. is_Done (cycle_p0 cfg e \<lparr>count = 1, backupStamps = [p]\<rparr> w) \<longrightarrow>
            result (cycle_p0 cfg e \<lparr>count = 1, backupStamps = [p]\<rparr> w) =
              \<lparr>count = 0, backupStamps = []\<rparr> \<and>
            Exec [''rsync'', ''-a'', Join (BackupPath cfg) (Format (now e)), ArchivePath cfg] \<in>
               set (new_calls w
                     (world_of (cycle_p0 cfg e \<lparr>count = 1, backupStamps = [p]\<rparr> w))) \<and>
            set (removed
                  (new_calls w (world_of (cycle_p0 cfg e \<lparr>count = 1, backupStamps = [p]\<rparr> w))))
              \<subseteq> {p} \<and>
            (p \<noteq> Join (BackupPath cfg) (Format (now e)) \<and>
             \<not> prefix (p @ ''/'') (Join (BackupPath cfg) (Format (now e))) \<longrightarrow>
               Join (BackupPath cfg) (Format (now e)) \<notin>
                 set (removed
                       (new_calls w
                         (world_of (cycle_p0 cfg e \<lparr>count = 1, backupStamps = [p]\<rparr> w)))) \<and>
               fs (world_of (cycle_p0 cfg e \<lparr>count = 1, backupStamps = [p]\<rparr> w))
                  (Join (BackupPath cfg) (Format (now e))) =
               fs (world_of (snapshot_p0 cfg e \<lparr>count = 1, backupStamps = [p]\<rparr> w))
                  (Join (BackupPath cfg) (Format (now e))) \<and>
               (\<not> stat_fails e (Join (BackupPath cfg) (Format (now e))) \<longrightarrow>
                  fs (world_of (cycle_p0 cfg e \<lparr>count = 1, backupStamps = [p]\<rparr> w))
                     (Join (BackupPath cfg) (Format (now e))) \<noteq> None)))"
proof -
  let ?bp = "Join (BackupPath cfg) (Format (now e))"
  have A: "cycle cfg e empty_tracker w = snapshot cfg e empty_tracker w"
  proof (cases "snapshot cfg e empty_tracker w")
    case (Fatal x w1)
    then show ?thesis by (simp add: cycle_def)
  next
    case (Done t1 w1)
    from snapshot_Done[OF Done] thr have "count t1 \<noteq> Threshhold cfg"
      by (simp add: empty_tracker_def)
    with Done show ?thesis by (simp add: cycle_def rotation_skip)
  qed
  have A': "cycle_p0 cfg e empty_tracker w =
           (case snapshot_p0 cfg e empty_tracker w of
              Fatal x w1 \<Rightarrow> Fatal x w1
            | Done t1 w1 \<Rightarrow> Done t1 (logf hashes w1))"
  proof (cases "snapshot_p0 cfg e empty_tracker w")
    case (Fatal x w1)
    then show ?thesis by (simp add: cycle_p0_def)
  next
    case (Done t1 w1)
    from snapshot_p0_Done[OF Done] thr have "count t1 \<noteq> Threshhold cfg"
      by (simp add: empty_tracker_def)
    with Done show ?thesis by (simp add: cycle_p0_def rotation_p0_skip)
  qed
  have S: "backupStamps (result (snapshot cfg e empty_tracker w)) = [?bp]"
    if "is_Done (snapshot cfg e empty_tracker w)"
  proof -
    from that obtain t1 w1 where d: "snapshot cfg e empty_tracker w = Done t1 w1"
      by (cases "snapshot cfg e empty_tracker w") auto
    from snapshot_Done[OF d] d show ?thesis by (simp add: empty_tracker_def)
  qed
  have S': "backupStamps (result (snapshot_p0 cfg e empty_tracker w)) = [?bp]"
    if "is_Done (snapshot_p0 cfg e empty_tracker w)"
  proof -
    from that obtain t1 w1 where d: "snapshot_p0 cfg e empty_tracker w = Done t1 w1"
      by (cases "snapshot_p0 cfg e empty_tracker w") auto
    from snapshot_p0_Done[OF d] d show ?thesis by (simp add: empty_tracker_def)
  qed
  have B: "result (cycle cfg e \<lparr>count = 1, backupStamps = [p]\<rparr> w) =
              \<lparr>count = 0, backupStamps = []\<rparr> \<and>
            (\<exists>a. Exec (''zip'' # a) \<in>
               set (new_calls w (world_of (cycle cfg e \<lparr>count = 1, backupStamps = [p]\<rparr> w)))) \<and>
            set (removed
                  (new_calls w (world_of (cycle cfg e \<lparr>count = 1, backupStamps = [p]\<rparr> w))))
              \<subseteq> {p} \<and>
            (p \<noteq> ?bp \<and> \<not> prefix (p @ ''/'') ?bp \<longrightarrow>
               ?bp \<notin> set (removed
                       (new_calls w
                         (world_of (cycle cfg e \<lparr>count = 1, backupStamps = [p]\<rparr> w)))) \<and>
               fs (world_of (cycle cfg e \<lparr>count = 1, backupStamps = [p]\<rparr> w)) ?bp =
               fs (world_of (snapshot cfg e \<lparr>count = 1, backupStamps = [p]\<rparr> w)) ?bp \<and>
               (\<not> stat_fails e ?bp \<longrightarrow>
                  fs (world_of (cycle cfg e \<lparr>count = 1, backupStamps = [p]\<rparr> w)) ?bp \<noteq> None))"
    if ok: "is_Done (cycle cfg e \<lparr>count = 1, backupStamps = [p]\<rparr> w)" for p
  proof -
    let ?t = "\<lparr>count = 1, backupStamps = [p]\<rparr>"
    from ok obtain t' w' where c: "cycle cfg e ?t w = Done t' w'"
      by (cases "cycle cfg e ?t w") auto
    then obtain t1 w1 where s: "snapshot cfg e ?t w = Done t1 w1"
      and r: "rotation cfg e t1 w1 = Done t' w'"
      by (auto simp: cycle_def split: outcome.splits)
    note t1 = snapshot_Done[OF s]
    from snapshot_calls[OF s] obtain cs where cs: "calls w1 = calls w @ cs" "removed cs = []"
      by blast
    have n2: "2 \<le> length (backupStamps t1)" and f: "count t1 = Threshhold cfg"
      using t1 thr by simp_all
    from rotation_calls[OF n2 f r] obtain a rs where
      x: "calls w' = calls w1 @
            Exec (''zip'' # ''-r'' # a # take (length (backupStamps t1) - 2) (backupStamps t1)) #
            map RemoveAll rs"
         "set rs \<subseteq> set (take (length (backupStamps t1) - 2) (backupStamps t1))"
         "t' = \<lparr>count = 0, backupStamps = []\<rparr>" by blast
    from x(2) t1 have rs: "rs = []" by simp
    have keep: "fs w' ?bp = fs w1 ?bp"
      by (rule rotation_keeps[OF n2 f r]) (simp add: t1)
    have there: "fs w' ?bp \<noteq> None" if "\<not> stat_fails e ?bp"
      using snapshot_there[OF s that] keep by simp
    from rs x cs c s keep there show ?thesis by (auto simp: new_calls_def)
  qed
  have B': "result (cycle_p0 cfg e \<lparr>count = 1, backupStamps = [p]\<rparr> w) =
              \<lparr>count = 0, backupStamps = []\<rparr> \<and>
            Exec [''rsync'', ''-a'', ?bp, ArchivePath cfg] \<in>
               set (new_calls w
                     (world_of (cycle_p0 cfg e \<lparr>count = 1, backupStamps = [p]\<rparr> w))) \<and>
            set (removed
                  (new_calls w (world_of (cycle_p0 cfg e \<lparr>count = 1, backupStamps = [p]\<rparr> w))))
              \<subseteq> {p} \<and>
            (p \<noteq> ?bp \<and> \<not> prefix (p @ ''/'') ?bp \<longrightarrow>
               ?bp \<notin> set (removed
                       (new_calls w
                         (world_of (cycle_p0 cfg e \<lparr>count = 1, backupStamps = [p]\<rparr> w)))) \<and>
               fs (world_of (cycle_p0 cfg e \<lparr>count = 1, backupStamps = [p]\<rparr> w)) ?bp =
               fs (world_of (snapshot_p0 cfg e \<lparr>count = 1, backupStamps = [p]\<rparr> w)) ?bp \<and>
               (\<not> stat_fails e ?bp \<longrightarrow>
                  fs (world_of (cycle_p0 cfg e \<lparr>count = 1, backupStamps = [p]\<rparr> w)) ?bp \<noteq> None))"
    if ok: "is_Done (cycle_p0 cfg e \<lparr>count = 1, backupStamps = [p]\<rparr> w)" for p
  proof -
    let ?t = "\<lparr>count = 1, backupStamps = [p]\<rparr>"
    from ok obtain t' w' where c: "cycle_p0 cfg e ?t w = Done t' w'"
      by (cases "cycle_p0 cfg e ?t w") auto
    then obtain t1 w1 w2 where s: "snapshot_p0 cfg e ?t w = Done t1 w1"
      and r: "rotation_p0 cfg e ?bp t1 w1 = Done t' w2" and w': "w' = logf hashes w2"
      by (auto simp: cycle_p0_def split: outcome.splits)
    note t1 = snapshot_p0_Done[OF s]
    from snapshot_p0_calls[OF s] obtain cs where cs: "calls w1 = calls w @ cs" "removed cs = []"
      by blast
    have l: "int (length (backupStamps t1)) = count t1" and f: "count t1 = Threshhold cfg"
      using t1 thr by simp_all
    from rotation_p0_calls[OF f l r] obtain rs where
      x: "calls w2 = calls w1 @ Exec [''rsync'', ''-a'', ?bp, ArchivePath cfg] # map RemoveAll rs"
         "set rs \<subseteq> set (butlast (backupStamps t1))"
         "t' = \<lparr>count = 0, backupStamps = []\<rparr>" by blast
    from x(2) t1 have rs: "set rs \<subseteq> {p}" by simp
    have keep: "fs w' ?bp = fs w1 ?bp" if "p \<noteq> ?bp" "\<not> prefix (p @ ''/'') ?bp"
    proof -
      have "fs w2 ?bp = fs w1 ?bp"
        by (rule rotation_p0_keeps[OF f l r]) (use that t1 in auto)
      with w' show ?thesis by simp
    qed
    have there: "fs w' ?bp \<noteq> None"
      if "p \<noteq> ?bp" "\<not> prefix (p @ ''/'') ?bp" "\<not> stat_fails e ?bp"
      using snapshot_p0_there[OF s that(3)] keep[OF that(1,2)] by simp
    from rs x cs c s w' keep there show ?thesis by (auto simp: new_calls_def)
  qed
  from A A' S S' B B' show ?thesis by blast
qed

lemma second_of_pair_eval:
  "case first_of_pair of
     Fatal x w \<Rightarrow> False
   | Done t w \<Rightarrow> t = \<lparr>count = 1, backupStamps = [S1]\<rparr> \<and>
       Join (BackupPath (cfg_with 2)) (Format (now (on_day 2))) = S2 \<and>
       (case cycle (cfg_with 2) (on_day 2) \<lparr>count = 1, backupStamps = [S1]\<rparr> w of
          Fatal x w' \<Rightarrow> False
        | Done t' w' \<Rightarrow> True)"
  by code_simp

lemma second_of_pair_p0_eval:
  "case first_of_pair_p0 of
     Fatal x w \<Rightarrow> False
   | Done t w \<Rightarrow> t = \<lparr>count = 1, backupStamps = [S1]\<rparr> \<and>
       (case cycle_p0 (cfg_with 2) (on_day 2) \<lparr>count = 1, backupStamps = [S1]\<rparr> w of
          Fatal x w' \<Rightarrow> False
        | Done t' w' \<Rightarrow> removed (new_calls w w') = [S1] \<and> fs w' S1 = None)"
  by code_simp

text \<open>
  Without the proviso the new snapshot is not kept by \<^verbatim>\<open>part_000\<close>: when both
  snapshots of the pair are taken on one day they share their directory, and the
  rotation removes it.
\<close>

lemma same_day_pair_p0_loses_new_snapshot:
  "case same_day_second_p0 of
     Fatal x w \<Rightarrow> False
   | Done t w \<Rightarrow> removed (new_calls (world_of first_of_pair_p0) w) = [S1] \<and>
       Join (BackupPath (cfg_with 2)) (Format (now afternoon)) = S1 \<and> fs w S1 = None"
  by code_simp

theorem threshold_two_rotates_every_second_snapshot_witness:
  "Threshhold (cfg_with 2) = 2 \<and>
   is_Done first_of_pair \<and>
   result first_of_pair = \<lparr>count = 1, backupStamps = [S1]\<rparr> \<and>
   first_of_pair = snapshot (cfg_with 2) (on_day 1) empty_tracker disk0 \<and>
   is_Done second_of_pair \<and>
   result second_of_pair = \<lparr>count = 0, backupStamps = []\<rparr> \<and>
   set (removed (new_calls (world_of first_of_pair) (world_of second_of_pair))) \<subseteq> {S1} \<and>
   S2 \<notin> set (removed (new_calls (world_of first_of_pair) (world_of second_of_pair))) \<and>
   fs (world_of second_of_pair) S2 \<noteq> None \<and>
   is_Done first_of_pair_p0 \<and>
   result first_of_pair_p0 = \<lparr>count = 1, backupStamps = [S1]\<rparr> \<and>
   is_Done second_of_pair_p0 \<and>
   result second_of_pair_p0 = \<lparr>count = 0, backupStamps = []\<rparr> \<and>
   removed (new_calls (world_of first_of_pair_p0) (world_of second_of_pair_p0)) = [S1] \<and>
   S2 \<notin> set (removed (new_calls (world_of first_of_pair_p0) (world_of second_of_pair_p0))) \<and>
   fs (world_of second_of_pair_p0) S2 \<noteq> None"
proof -
  have thr: "Threshhold (cfg_with 2) = 2" by (simp add: cfg_with_def)
  have ne: "S1 \<noteq> S2" "\<not> prefix (S1 @ ''/'') S2" by (simp_all add: S1_def S2_def)
  have ns: "\<not> stat_fails (on_day 2) S2" by (simp add: on_day_def)
  note a = outcome_caseD[OF second_of_pair_eval]
  from a have bp: "Join (BackupPath (cfg_with 2)) (Format (now (on_day 2))) = S2" by blast
  from a have "case second_of_pair of Fatal x w' \<Rightarrow> False | Done t' w' \<Rightarrow> True"
    unfolding second_of_pair_def by blast
  from outcome_caseD[OF this] have d2: "is_Done second_of_pair" by blast
  note b = outcome_caseD[OF second_of_pair_p0_eval]
  from b have "case second_of_pair_p0 of
      Fatal x w' \<Rightarrow> False
    | Done t' w' \<Rightarrow> removed (new_calls (world_of first_of_pair_p0) w') = [S1] \<and>
        fs w' S1 = None"
    unfolding second_of_pair_p0_def by blast
  note b' = outcome_caseD[OF this]
  from b' have e2: "is_Done second_of_pair_p0" by blast
  from threshold_two_rotates_every_second_snapshot[OF thr, of "on_day 1" disk0]
  have f: "first_of_pair = snapshot (cfg_with 2) (on_day 1) empty_tracker disk0"
    unfolding first_of_pair_def by blast
  from threshold_two_rotates_every_second_snapshot
         [OF thr, of "on_day 2" "world_of first_of_pair"] d2 ne ns
  have m: "result second_of_pair = \<lparr>count = 0, backupStamps = []\<rparr> \<and>
      set (removed (new_calls (world_of first_of_pair) (world_of second_of_pair))) \<subseteq> {S1} \<and>
      S2 \<notin> set (removed (new_calls (world_of first_of_pair) (world_of second_of_pair))) \<and>
      fs (world_of second_of_pair) S2 \<noteq> None"
    unfolding second_of_pair_def bp by blast
  from threshold_two_rotates_every_second_snapshot
         [OF thr, of "on_day 2" "world_of first_of_pair_p0"] e2 ne ns
  have m0: "result second_of_pair_p0 = \<lparr>count = 0, backupStamps = []\<rparr> \<and>
      S2 \<notin> set (removed (new_calls (world_of first_of_pair_p0) (world_of second_of_pair_p0))) \<and>
      fs (world_of second_of_pair_p0) S2 \<noteq> None"
    unfolding second_of_pair_p0_def bp by blast
  from thr a f d2 m b b' m0 show ?thesis by simp
qed

section \<open>Export\<close>

text \<open>
  \<^verbatim>\<open>part_000\<close> passes the database name and makes the opened dump file the standard
  output of the export: after a successful open the file starts with what the
  process wrote.
\<close>

lemma mysqldump_p0_redirects:
  assumes "open_ok e dst" "fs w dst \<noteq> Some Dir"
  shows "executed (new_calls w (snd (mysqldump_p0 e user pw db dst w))) =
           [[''mysqldump'', ''-u'', user, ''-p'' @ pw, db]] \<and>
         (\<exists>old. fs (snd (mysqldump_p0 e user pw db dst w)) dst =
            Some (File (snd (proc e [''mysqldump'', ''-u'', user, ''-p'' @ pw, db]) @ old)))"
proof (cases "fs w dst")
  case None
  with assms show ?thesis
    by (simp add: mysqldump_p0_def os_OpenFile_def Run_def Let_def Command_def running_def
          logf_def write_file_def new_calls_def)
next
  case (Some n)
  with assms obtain old where "n = File old" by (cases n) auto
  with Some assms show ?thesis
    by (simp add: mysqldump_p0_def os_OpenFile_def Run_def Let_def Command_def running_def
          logf_def write_file_def new_calls_def)
qed

text \<open>
  C5 (the export is invoked with user, password and database name, and its standard
  output is redirected into the dump file). In \<^verbatim>\<open>main.go\<close> the process started is
  \<^verbatim>\<open>mysqldump -u user -ppw > dst\<close> with \<^verbatim>\<open>>\<close> and \<^verbatim>\<open>dst\<close> as plain arguments: whatever
  database name is passed to the function, the same process is started, its output
  goes to the log, and the file system is left as it was.
\<close>

theorem mysqldump_ignores_db_and_dump_file:
  "fs (snd (mysqldump e user pw db dst w)) = fs w \<and>
   calls (snd (mysqldump e user pw db dst w)) =
     calls w @ [Exec [''mysqldump'', ''-u'', user, ''-p'' @ pw, ''>'', dst]] \<and>
   last (logged (snd (mysqldump e user pw db dst w))) =
     CmdOut (snd (proc e [''mysqldump'', ''-u'', user, ''-p'' @ pw, ''>'', dst])) \<and>
   mysqldump e user pw db dst w = mysqldump e user pw db' dst w"
  by (simp add: mysqldump_def Run_def Let_def setCmdOut_def Command_def running_def logf_def)

lemma copy_fails_eval:
  "case copy_fails of
     Done t w \<Rightarrow> False
   | Fatal x w \<Rightarrow> x = ErrRsync \<and>
       executed (calls w) =
         [[''mysqldump'', ''-u'', ''u'', ''-pp'', ''>'', ''/b/2024-01-01/shop-2024-01-01.sql''],
          [''rsync'', ''-a'', ''/data'', ''/b/2024-01-01/data'']] \<and>
       fs w S1 = Some Dir \<and>
       fs w ''/b/2024-01-01/shop-2024-01-01.sql'' = None \<and>
       logged w ! 1 = CmdOut ''dump''"
  by code_simp

lemma copy_fails_p0_eval:
  "case copy_fails_p0 of
     Done t w \<Rightarrow> False
   | Fatal x w \<Rightarrow> x = ErrRsync \<and>
       fs w ''/b/2024-01-01/shop-2024-01-01.sql'' = Some (File ''dump'')"
  by code_simp

text \<open>
  C6 (when the export succeeds and the copy fails, the process ends with the dump
  file on disk and the snapshot not recorded). The first iteration of \<^verbatim>\<open>main.go\<close> on a
  machine where only \<^verbatim>\<open>rsync\<close> fails: the process exits at the copy, so nothing is
  recorded, and the snapshot directory exists, but there is no dump file in it: what
  the export wrote is in the log. \<^verbatim>\<open>part_000\<close> on the same machine leaves the dump
  file with the export's output.
\<close>

theorem copy_failure_leaves_no_dump_file:
  "is_Fatal copy_fails \<and> reason copy_fails = ErrRsync \<and>
   executed (calls (world_of copy_fails)) =
     [[''mysqldump'', ''-u'', ''u'', ''-pp'', ''>'', ''/b/2024-01-01/shop-2024-01-01.sql''],
      [''rsync'', ''-a'', ''/data'', ''/b/2024-01-01/data'']] \<and>
   fs (world_of copy_fails) S1 = Some Dir \<and>
   fs (world_of copy_fails) ''/b/2024-01-01/shop-2024-01-01.sql'' = None \<and>
   logged (world_of copy_fails) ! 1 = CmdOut ''dump'' \<and>
   is_Fatal copy_fails_p0 \<and> reason copy_fails_p0 = ErrRsync \<and>
   fs (world_of copy_fails_p0) ''/b/2024-01-01/shop-2024-01-01.sql'' = Some (File ''dump'')"
  using outcome_caseD_Fatal[OF copy_fails_eval] outcome_caseD_Fatal[OF copy_fails_p0_eval]
  by simp

section \<open>Removing retired snapshots\<close>












section \<open>Startup\<close>

lemma os_OpenFile_dirs: "fs (snd (os_OpenFile e p w)) q = Some Dir \<longleftrightarrow> fs w q = Some Dir"
  by (auto simp: os_OpenFile_def split: option.splits)

lemma os_OpenFile_calls: "calls (snd (os_OpenFile e p w)) = calls w @ [OpenFile p]"
  by (simp add: os_OpenFile_def)

text \<open>
  C8 (without the export tool on the search path the process ends before any
  directory is created and before the loop). In \<^verbatim>\<open>main.go\<close>, when \<^verbatim>\<open>mysqldump\<close> is
  not found, \<^verbatim>\<open>main\<close> ends fatally having issued one call, the opening of the log
  file: no directory is created, no process is started, the directories on disk are
  those there were, and the iterations that would have followed play no part.
\<close>

theorem missing_export_tool_stops_startup:
  assumes "\<not> look_path e0 ''mysqldump''"
  shows "is_Fatal (main cfg e0 es w) \<and>
         calls (world_of (main cfg e0 es w)) = calls w @ [OpenFile (LogPath cfg)] \<and>
         created (new_calls w (world_of (main cfg e0 es w))) = [] \<and>
         executed (new_calls w (world_of (main cfg e0 es w))) = [] \<and>
         (\<forall>p. fs (world_of (main cfg e0 es w)) p = Some Dir \<longleftrightarrow> fs w p = Some Dir) \<and>
         main cfg e0 es w = main cfg e0 [] w"
proof -
  obtain b w1 where o: "os_OpenFile e0 (LogPath cfg) w = (b, w1)"
    by (cases "os_OpenFile e0 (LogPath cfg) w")
  have w1: "calls w1 = calls w @ [OpenFile (LogPath cfg)]"
    "\<And>q. fs w1 q = Some Dir \<longleftrightarrow> fs w q = Some Dir"
    using os_OpenFile_calls[of e0 "LogPath cfg" w] os_OpenFile_dirs[of e0 "LogPath cfg" w] o
    by simp_all
  have m: "main cfg e0 es w = (if b then Fatalf ErrRequirements w1 else Fatal ErrLogFile w1)"
    for es
    using assms o by (simp add: main_def checkRequirements_def)
  show ?thesis
    unfolding m by (simp add: Fatalf_def w1 new_calls_def)
qed

theorem missing_export_tool_stops_startup_witness:
  "\<not> look_path no_mysqldump ''mysqldump'' \<and>
   is_Fatal (main (cfg_with 3) no_mysqldump [on_day 1, on_day 2] disk0) \<and>
   reason (main (cfg_with 3) no_mysqldump [on_day 1, on_day 2] disk0) = ErrRequirements \<and>
   calls (world_of (main (cfg_with 3) no_mysqldump [on_day 1, on_day 2] disk0)) =
     [OpenFile ''/log''] \<and>
   fs (world_of (main (cfg_with 3) no_mysqldump [on_day 1, on_day 2] disk0)) ''/b'' = None \<and>
   fs (world_of (main (cfg_with 3) no_mysqldump [on_day 1, on_day 2] disk0)) ''/a'' = None"
proof -
  let ?out = "main (cfg_with 3) no_mysqldump [on_day 1, on_day 2] disk0"
  have h: "\<not> look_path no_mysqldump ''mysqldump''"
    by (simp add: no_mysqldump_def)
  have "case ?out of
      Done t w \<Rightarrow> False
    | Fatal x w \<Rightarrow> x = ErrRequirements \<and> fs w ''/b'' = None \<and> fs w ''/a'' = None"
    by code_simp
  note ev = outcome_caseD_Fatal[OF this]
  from missing_export_tool_stops_startup[OF h, of "cfg_with 3" "[on_day 1, on_day 2]" disk0]
  have f: "is_Fatal ?out"
    and c: "calls (world_of ?out) = calls disk0 @ [OpenFile (LogPath (cfg_with 3))]"
    by blast+
  have c': "calls (world_of ?out) = [OpenFile ''/log'']"
    unfolding c by (simp add: disk0_def cfg_with_def)
  from h f ev c' show ?thesis by blast
qed

section \<open>Snapshot identifiers\<close>

text \<open>
  C9 (the snapshot identifier depends on the calendar date only, so two cycles on the
  same day get the same identifier and the same directory). Two clocks that agree on
  year, month and day give the same stamp and the same snapshot directory, whatever
  the time of day. In both revisions a successful snapshot under the one clock
  records, behind what was tracked, the directory computed from the other, and the
  only directory it creates is that one, when \<^verbatim>\<open>directoryExists\<close> did not accept it
  before; two successful snapshots in a row, one under each clock, leave the same
  path tracked twice.
\<close>

theorem same_day_same_snapshot:
  assumes "year (now e1) = year (now e2)" "month (now e1) = month (now e2)"
    "day (now e1) = day (now e2)"
  shows "Format (now e1) = Format (now e2) \<and>
         Join (BackupPath cfg) (Format (now e1)) = Join (BackupPath cfg) (Format (now e2)) \<and>
         (\<forall>t w t1 w1. snapshot cfg e1 t w = Done t1 w1 \<longrightarrow>
            backupStamps t1 = backupStamps t @ [Join (BackupPath cfg) (Format (now e2))] \<and>
            created (new_calls w w1) =
              (if directoryExists e1 w (Join (BackupPath cfg) (Format (now e2))) then []
               else [Join (BackupPath cfg) (Format (now e2))])) \<and>
         (\<forall>t w t1 w1. snapshot_p0 cfg e1 t w = Done t1 w1 \<longrightarrow>
            backupStamps t1 = backupStamps t @ [Join (BackupPath cfg) (Format (now e2))] \<and>
            created (new_calls w w1) =
              (if directoryExists e1 w (Join (BackupPath cfg) (Format (now e2))) then []
               else [Join (BackupPath cfg) (Format (now e2))])) \<and>
         (\<forall>t w t1 w1 t2 w2.
            snapshot cfg e1 t w = Done t1 w1 \<and> snapshot cfg e2 t1 w1 = Done t2 w2 \<longrightarrow>
            backupStamps t2 =
              backupStamps t @
              [Join (BackupPath cfg) (Format (now e1)), Join (BackupPath cfg) (Format (now e1))]) \<and>
         (\<forall>t w t1 w1 t2 w2.
            snapshot_p0 cfg e1 t w = Done t1 w1 \<and> snapshot_p0 cfg e2 t1 w1 = Done t2 w2 \<longrightarrow>
            backupStamps t2 =
              backupStamps t @
              [Join (BackupPath cfg) (Format (now e1)), Join (BackupPath cfg) (Format (now e1))])"
proof -
  let ?p1 = "Join (BackupPath cfg) (Format (now e1))"
  have f: "Format (now e1) = Format (now e2)" using assms by (simp add: Format_def)
  have a: "backupStamps t1 = backupStamps t @ [?p1] \<and>
      created (new_calls w w1) = (if directoryExists e1 w ?p1 then [] else [?p1])"
    if "snapshot cfg e1 t w = Done t1 w1" for t w t1 w1
    using snapshot_Done[OF that] snapshot_created[OF that] by simp
  have a0: "backupStamps t1 = backupStamps t @ [?p1] \<and>
      created (new_calls w w1) = (if directoryExists e1 w ?p1 then [] else [?p1])"
    if "snapshot_p0 cfg e1 t w = Done t1 w1" for t w t1 w1
    using snapshot_p0_Done[OF that] snapshot_p0_created[OF that] by simp
  have b: "backupStamps t2 = backupStamps t @ [?p1, ?p1]"
    if "snapshot cfg e1 t w = Done t1 w1" "snapshot cfg e2 t1 w1 = Done t2 w2"
    for t w t1 w1 t2 w2
    using snapshot_Done[OF that(1)] snapshot_Done[OF that(2)] f by simp
  have b0: "backupStamps t2 = backupStamps t @ [?p1, ?p1]"
    if "snapshot_p0 cfg e1 t w = Done t1 w1" "snapshot_p0 cfg e2 t1 w1 = Done t2 w2"
    for t w t1 w1 t2 w2
    using snapshot_p0_Done[OF that(1)] snapshot_p0_Done[OF that(2)] f by simp
  from a a0 b b0 show ?thesis unfolding f[symmetric] by blast
qed

lemma afternoon_snapshot_eval:
  "case morning_snapshot of
     Fatal x w \<Rightarrow> False
   | Done t w \<Rightarrow> created (calls w) = [S1] \<and>
       Join (BackupPath (cfg_with 3)) (Format (now (on_day 1))) = S1 \<and>
       (case snapshot (cfg_with 3) afternoon t w of
          Fatal x w' \<Rightarrow> False
        | Done t' w' \<Rightarrow> created (calls w') = [S1])"
  by code_simp

lemma afternoon_snapshot_p0_eval:
  "case morning_snapshot_p0 of
     Fatal x w \<Rightarrow> False
   | Done t w \<Rightarrow>
       (case snapshot_p0 (cfg_with 3) afternoon t w of
          Fatal x w' \<Rightarrow> False
        | Done t' w' \<Rightarrow> created (calls w') = [S1])"
  by code_simp

theorem same_day_same_snapshot_witness:
  "hour (now (on_day 1)) \<noteq> hour (now afternoon) \<and>
   Format (now (on_day 1)) = Format (now afternoon) \<and>
   Join (BackupPath (cfg_with 3)) (Format (now afternoon)) = S1 \<and>
   is_Done morning_snapshot \<and> is_Done afternoon_snapshot \<and>
   backupStamps (result morning_snapshot) = [S1] \<and>
   backupStamps (result afternoon_snapshot) = [S1, S1] \<and>
   created (calls (world_of afternoon_snapshot)) = [S1] \<and>
   is_Done morning_snapshot_p0 \<and> is_Done afternoon_snapshot_p0 \<and>
   backupStamps (result afternoon_snapshot_p0) = [S1, S1] \<and>
   created (calls (world_of afternoon_snapshot_p0)) = [S1]"
proof -
  have d: "year (now (on_day 1)) = year (now afternoon)"
    "month (now (on_day 1)) = month (now afternoon)"
    "day (now (on_day 1)) = day (now afternoon)"
    by (simp_all add: on_day_def afternoon_def at_time_def)
  have h: "hour (now (on_day 1)) \<noteq> hour (now afternoon)"
    by (simp add: on_day_def afternoon_def at_time_def)
  note th = same_day_same_snapshot[OF d, of "cfg_with 3"]
  note m = outcome_caseD[OF afternoon_snapshot_eval]
  from m have j: "Join (BackupPath (cfg_with 3)) (Format (now (on_day 1))) = S1"
    and dm: "is_Done morning_snapshot" by blast+
  from m have "case afternoon_snapshot of
      Fatal x w' \<Rightarrow> False | Done t' w' \<Rightarrow> created (calls w') = [S1]"
    unfolding afternoon_snapshot_def by blast
  note a = outcome_caseD[OF this]
  note m0 = outcome_caseD[OF afternoon_snapshot_p0_eval]
  from m0 have "case afternoon_snapshot_p0 of
      Fatal x w' \<Rightarrow> False | Done t' w' \<Rightarrow> created (calls w') = [S1]"
    unfolding afternoon_snapshot_p0_def by blast
  note a0 = outcome_caseD[OF this]
  from dm have s1: "snapshot (cfg_with 3) (on_day 1) empty_tracker disk0 =
      Done (result morning_snapshot) (world_of morning_snapshot)"
    by (simp add: morning_snapshot_def)
  from a have s2: "snapshot (cfg_with 3) afternoon (result morning_snapshot)
      (world_of morning_snapshot) = Done (result afternoon_snapshot) (world_of afternoon_snapshot)"
    by (simp add: afternoon_snapshot_def)
  from m0 have t1: "snapshot_p0 (cfg_with 3) (on_day 1) empty_tracker disk0 =
      Done (result morning_snapshot_p0) (world_of morning_snapshot_p0)"
    by (simp add: morning_snapshot_p0_def)
  from a0 have t2: "snapshot_p0 (cfg_with 3) afternoon (result morning_snapshot_p0)
      (world_of morning_snapshot_p0) =
      Done (result afternoon_snapshot_p0) (world_of afternoon_snapshot_p0)"
    by (simp add: afternoon_snapshot_p0_def)
  from th have f: "Format (now (on_day 1)) = Format (now afternoon)"
    and jj: "Join (BackupPath (cfg_with 3)) (Format (now (on_day 1))) =
      Join (BackupPath (cfg_with 3)) (Format (now afternoon))" by blast+
  from th s1 have r1: "backupStamps (result morning_snapshot) =
      backupStamps empty_tracker @ [Join (BackupPath (cfg_with 3)) (Format (now afternoon))]"
    by blast
  from th s1 s2 have r2: "backupStamps (result afternoon_snapshot) =
      backupStamps empty_tracker @
      [Join (BackupPath (cfg_with 3)) (Format (now (on_day 1))),
       Join (BackupPath (cfg_with 3)) (Format (now (on_day 1)))]"
    by blast
  from th t1 t2 have r3: "backupStamps (result afternoon_snapshot_p0) =
      backupStamps empty_tracker @
      [Join (BackupPath (cfg_with 3)) (Format (now (on_day 1))),
       Join (BackupPath (cfg_with 3)) (Format (now (on_day 1)))]"
    by blast
  from h f j jj dm a m0 a0 r1 r2 r3 show ?thesis
    by (simp add: empty_tracker_def)
qed

section \<open>Bounds of the rotation\<close>

text \<open>Nothing at startup reads the threshold, and with threshold 1 \<^verbatim>\<open>main.go\<close> panics.\<close>

lemma main_ignores_threshold:
  "main (cfg\<lparr>Threshhold := n\<rparr>) e0 [] w = main cfg e0 [] w"
  by (simp add: main_def split: prod.splits bool.splits)

lemma main_p0_ignores_threshold:
  "main_p0 (cfg\<lparr>Threshhold := n\<rparr>) e0 [] w = main_p0 cfg e0 [] w"
  by (simp add: main_p0_def split: prod.splits bool.splits)

lemma threshold_one_panics:
  "reason (main (cfg_with 1) (on_day 1) [on_day 1] disk0) = PanicIndex"
  by code_simp

text \<open>
  C10 (the threshold is never validated; with threshold at least 2 every index and
  slice of the rotation is in bounds when it fires on a tracker of threshold
  length). The startup of both revisions is the same whatever the threshold. When
  the rotation fires with the tracker as long as the threshold, at least 2: the
  first element, the element at length - 2 and the prefix of length - 2 of
  \<^verbatim>\<open>main.go\<close>, and the prefix of threshold - 1 of \<^verbatim>\<open>part_000\<close>, are all there, and
  the rotation ends either normally or with the failure of the archive command or of
  a removal, never with a panic.
\<close>

theorem rotation_accesses_in_bounds:
  assumes thr: "2 \<le> Threshhold cfg"
    and fires: "count t = Threshhold cfg"
    and len: "int (length (backupStamps t)) = count t"
  shows "index (backupStamps t) 0 = Some (hd (backupStamps t)) \<and>
         index (backupStamps t) (int (length (backupStamps t)) - 2) =
           Some (backupStamps t ! (length (backupStamps t) - 2)) \<and>
         slice_to (backupStamps t) (int (length (backupStamps t)) - 2) =
           Some (take (length (backupStamps t) - 2) (backupStamps t)) \<and>
         slice_to (backupStamps t) (Threshhold cfg - 1) =
           Some (butlast (backupStamps t)) \<and>
         (is_Done (rotation cfg e t w) \<or> reason (rotation cfg e t w) = ErrArchiving \<or>
            reason (rotation cfg e t w) = ErrRemove) \<and>
         (is_Done (rotation_p0 cfg e b t w) \<or> reason (rotation_p0 cfg e b t w) = ErrMove \<or>
            reason (rotation_p0 cfg e b t w) = ErrRemove) \<and>
         main (cfg\<lparr>Threshhold := n\<rparr>) e0 [] w0 = main cfg e0 [] w0 \<and>
         main_p0 (cfg\<lparr>Threshhold := n\<rparr>) e0 [] w0 = main_p0 cfg e0 [] w0"
proof -
  let ?xs = "backupStamps t"
  let ?n = "length ?xs"
  from thr fires len have n2: "2 \<le> ?n" by linarith
  then have ne: "?xs \<noteq> []" by auto
  have i0: "index ?xs 0 = Some (hd ?xs)" using ne by (simp add: index_def hd_conv_nth)
  have i1: "index ?xs (int ?n - 2) = Some (?xs ! (?n - 2))"
    using n2 by (simp add: index_def nat_diff_distrib')
  have sl: "slice_to ?xs (int ?n - 2) = Some (take (?n - 2) ?xs)"
    using n2 by (simp add: slice_to_def nat_diff_distrib')
  have "nat (Threshhold cfg - 1) = ?n - 1" using fires len by linarith
  then have sp: "slice_to ?xs (Threshhold cfg - 1) = Some (butlast ?xs)"
    using n2 fires len by (simp add: slice_to_def butlast_conv_take)
  have r: "is_Done (rotation cfg e t w) \<or> reason (rotation cfg e t w) = ErrArchiving \<or>
      reason (rotation cfg e t w) = ErrRemove"
    unfolding rotation_fires_eq[OF n2 fires] Let_def
    by (auto simp: Fatalf_def split: outcome.splits dest: remove_loop_Fatal)
  have rp: "is_Done (rotation_p0 cfg e b t w) \<or> reason (rotation_p0 cfg e b t w) = ErrMove \<or>
      reason (rotation_p0 cfg e b t w) = ErrRemove"
    using fires sp
    by (auto simp: rotation_p0_def Fatalf_def split: prod.splits bool.splits outcome.splits
             dest: remove_loop_p0_Fatal)
  from i0 i1 sl sp r rp main_ignores_threshold main_p0_ignores_threshold
  show ?thesis by blast
qed

theorem rotation_accesses_in_bounds_witness:
  "2 \<le> Threshhold (cfg_with 3) \<and>
   index [S1, S2, S3] 0 = Some S1 \<and>
   index [S1, S2, S3] (int (length [S1, S2, S3]) - 2) = Some S2 \<and>
   slice_to [S1, S2, S3] (int (length [S1, S2, S3]) - 2) = Some [S1] \<and>
   slice_to [S1, S2, S3] (Threshhold (cfg_with 3) - 1) = Some [S1, S2]"
proof -
  have thr: "2 \<le> Threshhold (cfg_with 3)" by (simp add: cfg_with_def)
  have f: "count \<lparr>count = 3, backupStamps = [S1, S2, S3]\<rparr> = Threshhold (cfg_with 3)"
    by (simp add: cfg_with_def)
  have l: "int (length (backupStamps \<lparr>count = 3, backupStamps = [S1, S2, S3]\<rparr>)) =
      count \<lparr>count = 3, backupStamps = [S1, S2, S3]\<rparr>" by simp
  from rotation_accesses_in_bounds[OF thr f l, of "on_day 3" disk0 S3] thr
  show ?thesis by simp
qed

end
